theory Spec2Isabelle
  imports Main
begin

section \<open>Notebook-to-course converter (scripts/converter.py)\<close>

text \<open>
  A shallow embedding of the compilation core of \<^verbatim>\<open>scripts/converter.py\<close>: the syllabus
  parser, the unit splitter, the cell classifier, the course tree builder and the
  math-delimiter rewrite of the serializer. Python exceptions are values of type
  \<open>error\<close>; a function that can raise returns \<open>error + 'a\<close> with \<open>Inl\<close> the exception.
  Library code the script calls (the notebook reader, the HTML exporter, the XML parser and
  printer, the date functions) and the release-date table read from a file are the fields
  of an environment record that every operation takes as its first argument.
\<close>

subsection \<open>Characters and strings\<close>

abbreviation backslash :: char where
  "backslash \<equiv> CHR 0x5C"

abbreviation newline :: char where
  "newline \<equiv> CHR 0x0A"

text \<open>\<^verbatim>\<open>s.startswith(p)\<close>\<close>

definition startswith :: "string \<Rightarrow> string \<Rightarrow> bool" where
  "startswith s p = (take (length p) s = p)"

text \<open>\<^verbatim>\<open>s.endswith(p)\<close>\<close>

definition endswith :: "string \<Rightarrow> string \<Rightarrow> bool" where
  "endswith s p = (length p \<le> length s \<and> drop (length s - length p) s = p)"

text \<open>\<^verbatim>\<open>s.split(c)\<close> for a one-character separator: never the empty list.\<close>

fun split_on :: "char \<Rightarrow> string \<Rightarrow> string list" where
  "split_on c [] = [[]]"
| "split_on c (x # xs) =
     (if x = c then [] # split_on c xs
      else (case split_on c xs of
              [] \<Rightarrow> [[x]]
            | l # ls \<Rightarrow> (x # l) # ls))"

subsection \<open>Data model\<close>

datatype error =
    IndexError
  | AttributeError
  | TypeError
  | RuntimeError string
  | LibraryError string

datatype cell_type = Markdown | Code | Raw

text \<open>
  An output of a code cell. Only \<^verbatim>\<open>output.get('data')\<close> is read: \<open>None\<close> when the output
  has no \<^verbatim>\<open>data\<close> entry, otherwise the dictionary from media type to payload, as an
  association list read with \<open>map_of\<close>.
\<close>

record cell_output =
  data :: "(string \<times> string) list option"

text \<open>
  A notebook cell. \<open>outputs\<close> is \<open>None\<close> when the cell has no \<^verbatim>\<open>outputs\<close> attribute (what
  \<^verbatim>\<open>hasattr(cell, 'outputs')\<close> tests), and \<open>Some []\<close> when it has an empty list of outputs.
\<close>

record cell =
  cell_type :: cell_type
  source :: string
  metadata :: "(string \<times> string) list"
  outputs :: "cell_output list option"

text \<open>A unit: \<^verbatim>\<open>new_notebook(metadata={'name': nb_name})\<close> and its \<^verbatim>\<open>cells\<close>.\<close>

record unit_nb =
  unit_name :: string
  cells :: "cell list"

text \<open>An \<^verbatim>\<open>ElementTree\<close> element: tag, attribute dictionary in insertion order, children.\<close>

datatype xml = Element (tag: string) (attrib: "(string \<times> string) list") (children: "xml list")

text \<open>The \<^verbatim>\<open>SimpleNamespace\<close> objects that \<^verbatim>\<open>parse_syllabus\<close> builds.\<close>

record sequential_ns =
  sequential_name :: string
  sequential_date :: "string option"
  sequential_url :: string
  source_notebook :: string

record chapter_ns =
  chapter_name :: string
  chapter_date :: "string option"
  chapter_url :: string
  sequentials :: "sequential_ns list"

text \<open>
  The collaborators of the script: \<open>release_dates\<close> is the table evaluated from the file
  \<^verbatim>\<open>release_dates\<close> (with \<^verbatim>\<open>release_dates.get(name)\<close> the application), \<open>nbformat_read\<close> is
  \<^verbatim>\<open>nbformat.read(path, as_version=4)\<close> giving the cells of the notebook,
  \<open>from_notebook_node\<close> is the body returned by the configured \<^verbatim>\<open>HTMLExporter\<close> for the
  cells of a notebook, \<open>fromstring\<close> is \<^verbatim>\<open>ElementTree.fromstring\<close>, \<open>toprettyxml\<close> is the
  text that \<^verbatim>\<open>prettify\<close> gets from \<^verbatim>\<open>ElementTree.tostring\<close> and \<^verbatim>\<open>minidom\<close>, \<open>course_xml\<close> is the root element read from the skeleton's
  \<^verbatim>\<open>course.xml\<close>, and \<open>date_to_edx\<close> is the function of that name (lines 82-88), which
  consists of calls of \<^verbatim>\<open>strptime\<close>, \<^verbatim>\<open>datetime\<close> and \<^verbatim>\<open>strftime\<close> only.
\<close>

record env =
  release_dates :: "string \<Rightarrow> string option"
  nbformat_read :: "string \<Rightarrow> error + cell list"
  from_notebook_node :: "cell list \<Rightarrow> error + string"
  fromstring :: "string \<Rightarrow> error + xml"
  toprettyxml :: "xml \<Rightarrow> string"
  course_xml :: "error + xml"
  date_to_edx :: "string \<Rightarrow> error + string"

subsection \<open>Unit splitter\<close>

text \<open>
  \<^verbatim>\<open>re.split('(^# .*$)', source, flags=re.MULTILINE)\<close>. With \<^verbatim>\<open>MULTILINE\<close> the pattern
  matches exactly the whole lines that start with \<^verbatim>\<open># \<close> (\<^verbatim>\<open>.\<close> stops at a newline). The
  result alternates the text between two matches (with its newlines) and the matched
  line; \<open>re_split_lines acc ls\<close> walks the lines \<open>ls\<close> of the source with \<open>acc\<close> the text
  read since the last match.
\<close>

definition is_heading_line :: "string \<Rightarrow> bool" where
  "is_heading_line l = startswith l ''# ''"

fun re_split_lines :: "string \<Rightarrow> string list \<Rightarrow> string list" where
  "re_split_lines acc [] = [acc]"
| "re_split_lines acc [l] =
     (if is_heading_line l then [acc, l, []] else [acc @ l])"
| "re_split_lines acc (l # l' # ls) =
     (if is_heading_line l then acc # l # re_split_lines [newline] (l' # ls)
      else re_split_lines (acc @ l @ [newline]) (l' # ls))"

definition re_split_headings :: "string \<Rightarrow> string list" where
  "re_split_headings src = re_split_lines [] (split_on newline src)"

text \<open>\<^verbatim>\<open>nbformat.NotebookNode(source=src, cell_type='markdown', metadata={})\<close>\<close>

definition markdown_node :: "string \<Rightarrow> cell" where
  "markdown_node src = \<lparr>cell_type = Markdown, source = src, metadata = [], outputs = None\<rparr>"

text \<open>The generator \<^verbatim>\<open>split_cells\<close> (lines 146-163), as the list it yields.\<close>

definition split_cells :: "cell list \<Rightarrow> cell list" where
  "split_cells nb_cells =
     concat (map (\<lambda>cell. if cell_type cell \<noteq> Markdown then [cell]
                          else map markdown_node (re_split_headings (source cell)))
                 (dropWhile (\<lambda>cell. cell_type cell \<noteq> Markdown) nb_cells))"

text \<open>
  \<^verbatim>\<open>re.match('^# (.*)$', source).group(1)\<close>, without \<^verbatim>\<open>MULTILINE\<close>: the group runs to the
  first newline, and \<^verbatim>\<open>$\<close> matches at the end of the string or before a newline that ends
  it. \<open>None\<close> is the failed match, on which \<^verbatim>\<open>.group\<close> raises \<^verbatim>\<open>AttributeError\<close>.
\<close>

definition match_title :: "string \<Rightarrow> string option" where
  "match_title src =
     (if \<not> startswith src ''# '' then None
      else (let rest = drop 2 src;
                nm = takeWhile (\<lambda>c. c \<noteq> newline) rest;
                after = dropWhile (\<lambda>c. c \<noteq> newline) rest
            in if after = [] \<or> after = [newline] then Some nm else None))"

text \<open>\<^verbatim>\<open>units[-1].cells.append(cell)\<close>, for a non-empty list of units.\<close>

definition append_to_last :: "unit_nb list \<Rightarrow> cell \<Rightarrow> unit_nb list" where
  "append_to_last units cell =
     butlast units @ [(last units)\<lparr>cells := cells (last units) @ [cell]\<rparr>]"

text \<open>The loop of lines 165-177 over the cells that \<open>split_cells\<close> yields.\<close>

fun collect_units :: "bool \<Rightarrow> unit_nb list \<Rightarrow> cell list \<Rightarrow> error + unit_nb list" where
  "collect_units include_header units [] = Inr units"
| "collect_units include_header units (cell # rest) =
     (if cell_type cell = Markdown \<and> startswith (source cell) ''# '' then
        (case match_title (source cell) of
           None \<Rightarrow> Inl AttributeError
         | Some nb_name \<Rightarrow>
             (let units' = units @ [\<lparr>unit_name = nb_name, cells = []\<rparr>]
              in collect_units include_header
                   (if include_header then append_to_last units' cell else units') rest))
      else if units = [] then collect_units include_header units rest
      else collect_units include_header (append_to_last units cell) rest)"

definition split_into_units :: "env \<Rightarrow> string \<Rightarrow> bool \<Rightarrow> error + unit_nb list" where
  "split_into_units e nb_name include_header =
     (case nbformat_read e nb_name of
        Inl err \<Rightarrow> Inl err
      | Inr nb_cells \<Rightarrow> collect_units include_header [] (split_cells nb_cells))"

subsection \<open>Syllabus parser\<close>

text \<open>
  A line of the syllabus against
  \<^verbatim>\<open>^\* \*\*(?P<section>.*)\*\*$|^  \* \[(?P<title>.*)\]\((?P<filename>.*)\)$\<close>.
  The lines come from \<^verbatim>\<open>split('\n')\<close> and hold no newline, so \<^verbatim>\<open>.*\<close> can take any text.
  The section alternative needs the prefix \<^verbatim>\<open>* **\<close> and, after it, the suffix \<^verbatim>\<open>**\<close>.
  In the subsection alternative the greedy title runs to the last \<^verbatim>\<open>](\<close> that still
  leaves the closing parenthesis at the end of the line.
\<close>

datatype line_match = NoMatch | Section string | Subsection string string

fun rsplit_link :: "string \<Rightarrow> (string \<times> string) option" where
  "rsplit_link [] = None"
| "rsplit_link (c # cs) =
     (case rsplit_link cs of
        Some (t, f) \<Rightarrow> Some (c # t, f)
      | None \<Rightarrow> if c = CHR '']'' \<and> startswith cs ''('' then Some ([], drop 1 cs) else None)"

definition match_section :: "string \<Rightarrow> string option" where
  "match_section line =
     (if startswith line ''* **'' \<and> endswith (drop 4 line) ''**''
      then Some (butlast (butlast (drop 4 line))) else None)"

definition match_subsection :: "string \<Rightarrow> (string \<times> string) option" where
  "match_subsection line =
     (if startswith line ''  * ['' \<and> endswith (drop 5 line) '')''
      then rsplit_link (butlast (drop 5 line)) else None)"

definition match_syllabus_line :: "string \<Rightarrow> line_match" where
  "match_syllabus_line line =
     (case match_section line of
        Some nm \<Rightarrow> Section nm
      | None \<Rightarrow> (case match_subsection line of
                   Some (title, filename) \<Rightarrow> Subsection title filename
                 | None \<Rightarrow> NoMatch))"

type_synonym syllabus_entry = "string \<times> string option \<times> (string \<times> string) list"

text \<open>
  The loop of lines 100-110. \<^verbatim>\<open>syllabus[-1]\<close> on the empty list raises \<^verbatim>\<open>IndexError\<close>.
\<close>

fun parse_lines :: "env \<Rightarrow> syllabus_entry list \<Rightarrow> string list \<Rightarrow> error + syllabus_entry list" where
  "parse_lines e syllabus [] = Inr syllabus"
| "parse_lines e syllabus (line # rest) =
     (case match_syllabus_line line of
        NoMatch \<Rightarrow> parse_lines e syllabus rest
      | Section nm \<Rightarrow> parse_lines e (syllabus @ [(nm, release_dates e nm, [])]) rest
      | Subsection title filename \<Rightarrow>
          (case syllabus of
             [] \<Rightarrow> Inl IndexError
           | _ # _ \<Rightarrow>
               (case last syllabus of (nm, d, subs) \<Rightarrow>
                  parse_lines e (butlast syllabus @ [(nm, d, subs @ [(title, filename)])]) rest)))"

text \<open>\<^verbatim>\<open>f"{i:02}"\<close>: the decimal digits of \<open>i\<close>, padded with zeros on the left to two characters.\<close>

definition digit_char :: "nat \<Rightarrow> char" where
  "digit_char d = char_of (48 + d)"

fun decimal :: "nat \<Rightarrow> string" where
  "decimal n = (if n < 10 then [digit_char n] else decimal (n div 10) @ [digit_char (n mod 10)])"

declare decimal.simps [simp del]

definition format_02 :: "nat \<Rightarrow> string" where
  "format_02 i = replicate (2 - length (decimal i)) (CHR ''0'') @ decimal i"

text \<open>The loops of lines 112-138 over \<^verbatim>\<open>enumerate(syllabus)\<close> and \<^verbatim>\<open>enumerate(section[2])\<close>.\<close>

definition make_sequential :: "string \<Rightarrow> string option \<Rightarrow> nat \<Rightarrow> nat \<times> (string \<times> string) \<Rightarrow> sequential_ns" where
  "make_sequential content_folder d i js =
     (case js of (j, subsec) \<Rightarrow>
        \<lparr>sequential_name = fst subsec,
         sequential_date = d,
         sequential_url = ''subsec_'' @ format_02 i @ ''_'' @ format_02 j,
         source_notebook = content_folder @ ''/'' @ snd subsec\<rparr>)"

definition make_chapter :: "string \<Rightarrow> nat \<times> syllabus_entry \<Rightarrow> chapter_ns" where
  "make_chapter content_folder isec =
     (case isec of (i, sect) \<Rightarrow>
        \<lparr>chapter_name = fst sect,
         chapter_date = fst (snd sect),
         chapter_url = ''sec_'' @ format_02 i,
         sequentials = map (make_sequential content_folder (fst (snd sect)) i)
                           (enumerate 0 (snd (snd sect)))\<rparr>)"

definition make_chapters :: "string \<Rightarrow> bool \<Rightarrow> syllabus_entry list \<Rightarrow> chapter_ns list" where
  "make_chapters content_folder parse_all syllabus =
     map (make_chapter content_folder)
         (filter (\<lambda>(i, sect). parse_all \<or> fst (snd sect) \<noteq> None) (enumerate 0 syllabus))"

text \<open>
  \<^verbatim>\<open>parse_syllabus\<close>: \<^verbatim>\<open>split_into_units(syllabus_file)[0]\<close> and \<^verbatim>\<open>syll.cells[1]\<close> raise
  \<^verbatim>\<open>IndexError\<close> when the unit or the cell is missing. The result is \<^verbatim>\<open>data.chapters\<close>.
\<close>

definition parse_syllabus :: "env \<Rightarrow> string \<Rightarrow> string \<Rightarrow> bool \<Rightarrow> error + chapter_ns list" where
  "parse_syllabus e syllabus_file content_folder parse_all =
     (case split_into_units e syllabus_file True of
        Inl err \<Rightarrow> Inl err
      | Inr units \<Rightarrow>
          (case units of
             [] \<Rightarrow> Inl IndexError
           | syll # _ \<Rightarrow>
               (if length (cells syll) < 2 then Inl IndexError
                else (case parse_lines e [] (split_on newline (source (cells syll ! 1))) of
                        Inl err \<Rightarrow> Inl err
                      | Inr syllabus \<Rightarrow> Inr (make_chapters content_folder parse_all syllabus)))))"

subsection \<open>Regular-expression substitutions\<close>

text \<open>
  \<^verbatim>\<open>\\begin\{ *equation *\}\<close> and \<^verbatim>\<open>\\end\{ *equation *\}\<close> at the start of a string:
  \<open>match_equation kw s\<close> is the text after the match. A greedy run of spaces never has
  to give a space back, since the next character of the pattern is not a space.
\<close>

definition match_equation :: "string \<Rightarrow> string \<Rightarrow> string option" where
  "match_equation kw s =
     (if \<not> startswith s (backslash # kw @ ''{'') then None
      else (let s1 = dropWhile (\<lambda>c. c = CHR '' '') (drop (length kw + 2) s)
            in if \<not> startswith s1 ''equation'' then None
               else (let s2 = dropWhile (\<lambda>c. c = CHR '' '') (drop 8 s1)
                     in if startswith s2 ''}'' then Some (drop 1 s2) else None)))"

lemma nested_if_SomeD:
  "(if A then None else if B then None else if C then Some x else None) = Some r \<Longrightarrow> r = x \<and> C"
  by (simp split: if_splits)

lemma startswith_nonempty: "startswith s2 ''}'' \<Longrightarrow> s2 \<noteq> []"
  unfolding startswith_def by (cases s2) simp_all


lemma match_equation_SomeD:
  assumes "match_equation kw s = Some rest"
  shows "\<exists>s2. rest = drop 1 s2 \<and> s2 \<noteq> [] \<and> length s2 \<le> length s"
proof -
  let ?s1 = "dropWhile (\<lambda>c. c = CHR '' '') (drop (length kw + 2) s)"
  let ?s2 = "dropWhile (\<lambda>c. c = CHR '' '') (drop 8 ?s1)"
  from assms have "rest = drop 1 ?s2 \<and> startswith ?s2 ''}''"
    unfolding match_equation_def Let_def by (rule nested_if_SomeD)
  then have r: "rest = drop 1 ?s2" and st: "startswith ?s2 ''}''" by blast+
  from st have ne: "?s2 \<noteq> []" by (rule startswith_nonempty)
  have "length ?s2 \<le> length (drop 8 ?s1)" by (rule length_dropWhile_le)
  also have "\<dots> \<le> length ?s1" by simp
  also have "\<dots> \<le> length (drop (length kw + 2) s)" by (rule length_dropWhile_le)
  also have "\<dots> \<le> length s" by simp
  finally have "length ?s2 \<le> length s" .
  with r ne show ?thesis by blast
qed


lemma match_equation_shorter:
  assumes "match_equation kw s = Some rest"
  shows "length rest < length s"
proof -
  from match_equation_SomeD[OF assms] obtain s2
    where "rest = drop 1 s2" "s2 \<noteq> []" "length s2 \<le> length s" by blast
  then show ?thesis by (cases s2) simp_all
qed

text \<open>
  \<^verbatim>\<open>re.sub(pattern, repl, s)\<close> for these two patterns: the leftmost match is replaced and
  the scan goes on after it.
\<close>

function sub_equation :: "string \<Rightarrow> string \<Rightarrow> string \<Rightarrow> string" where
  "sub_equation kw repl [] = []"
| "sub_equation kw repl (c # cs) =
     (case match_equation kw (c # cs) of
        Some rest \<Rightarrow> repl @ sub_equation kw repl rest
      | None \<Rightarrow> c # sub_equation kw repl cs)"
  by pat_completeness auto
termination
  by (relation "measure (\<lambda>(kw, repl, s). length s)") (auto dest: match_equation_shorter)

text \<open>The two substitutions of lines 185-186 and 223-224, one after the other.\<close>

definition rewrite_equations :: "string \<Rightarrow> string" where
  "rewrite_equations s =
     sub_equation ''end'' [backslash, CHR '']''] (sub_equation ''begin'' [backslash, CHR ''[''] s)"

text \<open>
  \<^verbatim>\<open>\$\$(.*?)\$\$\<close> and \<^verbatim>\<open>\$(.*?)\$\<close>: after the opening delimiter \<open>d\<close>, \<open>find_close d s\<close> looks
  for the shortest group, free of newlines, that the closing delimiter follows, and gives
  the group and the text after the match.
\<close>

fun find_close :: "string \<Rightarrow> string \<Rightarrow> (string \<times> string) option" where
  "find_close d [] = None"
| "find_close d (c # cs) =
     (if startswith (c # cs) d then Some ([], drop (length d) (c # cs))
      else if c = newline then None
      else (case find_close d cs of
              None \<Rightarrow> None
            | Some (g, rest) \<Rightarrow> Some (c # g, rest)))"

definition match_math :: "string \<Rightarrow> string \<Rightarrow> (string \<times> string) option" where
  "match_math d s = (if startswith s d then find_close d (drop (length d) s) else None)"

lemma find_close_shorter:
  "find_close d s = Some (g, rest) \<Longrightarrow> length rest \<le> length s"
  by (induction s arbitrary: g) (auto split: if_splits option.splits)

lemma match_math_shorter:
  "d \<noteq> [] \<Longrightarrow> match_math d s = Some (g, rest) \<Longrightarrow> length rest < length s"
proof -
  assume d: "d \<noteq> []" and m: "match_math d s = Some (g, rest)"
  from m have p: "startswith s d" and f: "find_close d (drop (length d) s) = Some (g, rest)"
    by (auto simp: match_math_def split: if_splits)
  from p d have "s \<noteq> []" by (auto simp: startswith_def)
  with d have "length (drop (length d) s) < length s" by (cases s; cases d) auto
  with find_close_shorter[OF f] show ?thesis by simp
qed

lemma match_display_shorter:
  "match_math ''$$'' s = Some (g, rest) \<Longrightarrow> length rest < length s"
  by (rule match_math_shorter[of "''$$''"]) simp_all

lemma match_inline_shorter:
  "match_math ''$'' s = Some (g, rest) \<Longrightarrow> length rest < length s"
  by (rule match_math_shorter[of "''$''"]) simp_all

function sub_display :: "string \<Rightarrow> string" where
  "sub_display [] = []"
| "sub_display (c # cs) =
     (case match_math ''$$'' (c # cs) of
        Some (g, rest) \<Rightarrow> [backslash, CHR ''[''] @ g @ [backslash, CHR '']''] @ sub_display rest
      | None \<Rightarrow> c # sub_display cs)"
  by pat_completeness auto
termination
  by (relation "measure length") (auto dest: match_display_shorter)

function sub_inline :: "string \<Rightarrow> string" where
  "sub_inline [] = []"
| "sub_inline (c # cs) =
     (case match_math ''$'' (c # cs) of
        Some (g, rest) \<Rightarrow> [backslash, CHR ''(''] @ g @ [backslash, CHR '')''] @ sub_inline rest
      | None \<Rightarrow> c # sub_inline cs)"
  by pat_completeness auto
termination
  by (relation "measure length") (auto dest: match_inline_shorter)

text \<open>
  \<^verbatim>\<open>prettify\<close>: \<^verbatim>\<open>output[output.find("\n")+1:]\<close> drops the first line with its newline, and
  nothing when there is no newline (\<^verbatim>\<open>find\<close> gives \<^verbatim>\<open>-1\<close>).
\<close>

definition prettify :: "env \<Rightarrow> xml \<Rightarrow> string" where
  "prettify e elem =
     (let out = toprettyxml e elem
      in if newline \<in> set out then drop 1 (dropWhile (\<lambda>c. c \<noteq> newline) out) else out)"

text \<open>The text that \<^verbatim>\<open>save_xml\<close> writes (lines 213-216).\<close>

definition save_xml :: "env \<Rightarrow> xml \<Rightarrow> string" where
  "save_xml e x = sub_inline (sub_display (prettify e x))"

subsection \<open>Cell classifier\<close>

datatype artifact = Html string | Component xml

definition export_unit_to_html :: "env \<Rightarrow> cell list \<Rightarrow> error + string" where
  "export_unit_to_html e unit_cells =
     (case from_notebook_node e unit_cells of
        Inl err \<Rightarrow> Inl err
      | Inr body \<Rightarrow> Inr (rewrite_equations body))"

text \<open>
  \<^verbatim>\<open>convert_normal_cells\<close> assigns to \<^verbatim>\<open>cell.source\<close> of every markdown cell of its
  argument before it exports them: the first component of the result is the state of
  the argument's cells after the call, the second is what the call returns.
\<close>

definition rewrite_cell :: "cell \<Rightarrow> cell" where
  "rewrite_cell c =
     (if cell_type c = Markdown then c\<lparr>source := rewrite_equations (source c)\<rparr> else c)"

definition convert_normal_cells :: "env \<Rightarrow> cell list \<Rightarrow> cell list \<times> (error + string)" where
  "convert_normal_cells e normal_cells =
     (let cells' = map rewrite_cell normal_cells
      in (cells', export_unit_to_html e cells'))"

definition olxml :: string where
  "olxml = ''application/vnd.edx.olxml+xml''"

text \<open>The list \<^verbatim>\<open>xml_components\<close> of lines 247-253.\<close>

definition xml_components :: "cell_output list \<Rightarrow> string list" where
  "xml_components outs =
     concat (map (\<lambda>out. case data out of
                           None \<Rightarrow> []
                         | Some d \<Rightarrow> (case map_of d olxml of None \<Rightarrow> [] | Some payload \<Rightarrow> [payload]))
                 outs)"

text \<open>
  The loop of lines 237-270 with its state \<^verbatim>\<open>(unit_output, normal_cells)\<close>. The cells of
  a unit are distinct objects and a cell is in at most one batch, so the batch holds
  the cells as they were read.
\<close>

fun convert_cells ::
  "env \<Rightarrow> artifact list \<times> cell list \<Rightarrow> cell list \<Rightarrow> error + (artifact list \<times> cell list)" where
  "convert_cells e st [] = Inr st"
| "convert_cells e (unit_output, normal_cells) (cell # rest) =
     (if cell_type cell = Markdown then
        convert_cells e (unit_output, normal_cells @ [cell]) rest
      else (case outputs cell of
          None \<Rightarrow> convert_cells e (unit_output, normal_cells) rest
        | Some outs \<Rightarrow>
            (if xml_components outs = [] then
               convert_cells e (unit_output, normal_cells @ [cell]) rest
             else if length (xml_components outs) > 1 then
               Inl (RuntimeError ''More than 1 xml component in a cell.'')
             else (case fromstring e (hd (xml_components outs)) of
                 Inl err \<Rightarrow> Inl err
               | Inr x \<Rightarrow>
                   (if normal_cells \<noteq> [] then
                      (case snd (convert_normal_cells e normal_cells) of
                         Inl err \<Rightarrow> Inl err
                       | Inr html \<Rightarrow>
                           convert_cells e (unit_output @ [Html html, Component x], []) rest)
                    else convert_cells e (unit_output @ [Component x], []) rest)))))"

definition convert_unit :: "env \<Rightarrow> unit_nb \<Rightarrow> string option \<Rightarrow> error + artifact list" where
  "convert_unit e u date =
     (case convert_cells e ([], []) (cells u) of
        Inl err \<Rightarrow> Inl err
      | Inr (unit_output, normal_cells) \<Rightarrow>
          (if normal_cells \<noteq> [] then
             (case snd (convert_normal_cells e normal_cells) of
                Inl err \<Rightarrow> Inl err
              | Inr html \<Rightarrow> Inr (unit_output @ [Html html]))
           else Inr unit_output))"

text \<open>
  \<^verbatim>\<open>convert_unit\<close> with the cells as the objects they are. The heap is the list
  \<^verbatim>\<open>unit.cells\<close>, a cell is referred to by its position in it, and \<^verbatim>\<open>normal_cells\<close> holds
  positions. \<open>convert_normal_cells_heap\<close> writes the rewritten source into the cells of
  the batch one after the other (lines 221-224) and exports them as they then are. The
  first component of a result is the heap after the call, the second is what the call
  returns or raises; \<open>convert_unit_heap\<close> walks the positions of \<^verbatim>\<open>unit.cells\<close> in order.
\<close>

definition rewrite_at :: "cell list \<Rightarrow> nat \<Rightarrow> cell list" where
  "rewrite_at heap a = heap[a := rewrite_cell (heap ! a)]"

definition convert_normal_cells_heap :: "env \<Rightarrow> cell list \<Rightarrow> nat list \<Rightarrow> cell list \<times> (error + string)" where
  "convert_normal_cells_heap e heap normal_cells =
     (let heap' = foldl rewrite_at heap normal_cells
      in (heap', export_unit_to_html e (map (\<lambda>a. heap' ! a) normal_cells)))"

fun convert_cells_heap ::
  "env \<Rightarrow> cell list \<times> artifact list \<times> nat list \<Rightarrow> nat list
     \<Rightarrow> cell list \<times> (error + (artifact list \<times> nat list))" where
  "convert_cells_heap e (heap, unit_output, normal_cells) [] = (heap, Inr (unit_output, normal_cells))"
| "convert_cells_heap e (heap, unit_output, normal_cells) (a # rest) =
     (if cell_type (heap ! a) = Markdown then
        convert_cells_heap e (heap, unit_output, normal_cells @ [a]) rest
      else (case outputs (heap ! a) of
          None \<Rightarrow> convert_cells_heap e (heap, unit_output, normal_cells) rest
        | Some outs \<Rightarrow>
            (if xml_components outs = [] then
               convert_cells_heap e (heap, unit_output, normal_cells @ [a]) rest
             else if length (xml_components outs) > 1 then
               (heap, Inl (RuntimeError ''More than 1 xml component in a cell.''))
             else (case fromstring e (hd (xml_components outs)) of
                 Inl err \<Rightarrow> (heap, Inl err)
               | Inr x \<Rightarrow>
                   (if normal_cells \<noteq> [] then
                      (case convert_normal_cells_heap e heap normal_cells of
                         (heap', Inl err) \<Rightarrow> (heap', Inl err)
                       | (heap', Inr html) \<Rightarrow>
                           convert_cells_heap e (heap', unit_output @ [Html html, Component x], []) rest)
                    else convert_cells_heap e (heap, unit_output @ [Component x], []) rest)))))"

definition convert_unit_heap :: "env \<Rightarrow> unit_nb \<Rightarrow> string option \<Rightarrow> cell list \<times> (error + artifact list)" where
  "convert_unit_heap e u date =
     (case convert_cells_heap e (cells u, [], []) [0..<length (cells u)] of
        (heap, Inl err) \<Rightarrow> (heap, Inl err)
      | (heap, Inr (unit_output, normal_cells)) \<Rightarrow>
          (if normal_cells \<noteq> [] then
             (case convert_normal_cells_heap e heap normal_cells of
                (heap', Inl err) \<Rightarrow> (heap', Inl err)
              | (heap', Inr html) \<Rightarrow> (heap', Inr (unit_output @ [Html html])))
           else (heap, Inr unit_output)))"

subsection \<open>Course tree builder\<close>

text \<open>A loop whose body can raise: the results in order, or the first exception.\<close>

fun for_each :: "('a \<Rightarrow> error + 'b) \<Rightarrow> 'a list \<Rightarrow> error + 'b list" where
  "for_each f [] = Inr []"
| "for_each f (x # xs) =
     (case f x of
        Inl err \<Rightarrow> Inl err
      | Inr y \<Rightarrow> (case for_each f xs of Inl err \<Rightarrow> Inl err | Inr ys \<Rightarrow> Inr (y # ys)))"

text \<open>The body of the loop over \<^verbatim>\<open>enumerate(unit_output)\<close> (lines 343-370).\<close>

definition add_output :: "string \<Rightarrow> string \<Rightarrow> nat \<times> artifact \<Rightarrow> xml" where
  "add_output vertical_url display jout =
     (case jout of (j, out) \<Rightarrow>
        (let out_url = vertical_url @ ''_out_'' @ format_02 j
         in (case out of
               Html body \<Rightarrow>
                 Element ''html''
                   [(''url_name'', out_url), (''display_name'', display), (''filename'', out_url)] []
             | Component x \<Rightarrow>
                 (if ''url_name'' \<in> fst ` set (attrib x) then x
                  else Element (tag x) (attrib x @ [(''url_name'', out_url)]) (children x)))))"

text \<open>The body of the loop over \<^verbatim>\<open>enumerate(units)\<close> (lines 334-370).\<close>

definition add_vertical :: "env \<Rightarrow> sequential_ns \<Rightarrow> nat \<times> unit_nb \<Rightarrow> error + xml" where
  "add_vertical e sq iu =
     (case iu of (i, u) \<Rightarrow>
        (let vertical_url = sequential_url sq @ ''_'' @ format_02 i
         in (case convert_unit e u (sequential_date sq) of
               Inl err \<Rightarrow> Inl err
             | Inr unit_output \<Rightarrow>
                 Inr (Element ''vertical''
                        [(''url_name'', vertical_url), (''display_name'', unit_name u)]
                        (map (add_output vertical_url (unit_name u)) (enumerate 0 unit_output))))))"

text \<open>The body of the loop over \<^verbatim>\<open>chapter.sequentials\<close> (lines 319-370).\<close>

definition sequential_attrib :: "chapter_ns \<Rightarrow> sequential_ns \<Rightarrow> (string \<times> string) list" where
  "sequential_attrib ch sq =
     [(''url_name'', sequential_url sq),
      (''display_name'', sequential_name sq),
      (''graded'', if chapter_url ch \<noteq> ''sec_00'' then ''true'' else ''false'')]
     @ (if sequential_name sq = ''Assignments'' then [(''format'', ''Research'')]
        else if chapter_url ch \<noteq> ''sec_00'' then [(''format'', ''Self-check'')]
        else [])"

definition add_sequential :: "env \<Rightarrow> chapter_ns \<Rightarrow> sequential_ns \<Rightarrow> error + xml" where
  "add_sequential e ch sq =
     (case split_into_units e (source_notebook sq) False of
        Inl err \<Rightarrow> Inl err
      | Inr units \<Rightarrow>
          (case for_each (add_vertical e sq) (enumerate 0 units) of
             Inl err \<Rightarrow> Inl err
           | Inr verticals \<Rightarrow> Inr (Element ''sequential'' (sequential_attrib ch sq) verticals)))"

text \<open>
  The body of the loop over \<^verbatim>\<open>data.chapters\<close> (lines 312-370). \<^verbatim>\<open>date_to_edx(None)\<close> raises
  \<^verbatim>\<open>TypeError\<close> in \<^verbatim>\<open>strptime\<close>.
\<close>

definition add_chapter :: "env \<Rightarrow> chapter_ns \<Rightarrow> error + xml" where
  "add_chapter e ch =
     (case (case chapter_date ch of None \<Rightarrow> Inl TypeError | Some d \<Rightarrow> date_to_edx e d) of
        Inl err \<Rightarrow> Inl err
      | Inr start \<Rightarrow>
          (case for_each (add_sequential e ch) (sequentials ch) of
             Inl err \<Rightarrow> Inl err
           | Inr seqs \<Rightarrow>
               Inr (Element ''chapter''
                      [(''url_name'', chapter_url ch),
                       (''display_name'', chapter_name ch),
                       (''start'', start)]
                      seqs)))"

text \<open>\<^verbatim>\<open>os.path.join(a, b)\<close> on POSIX paths.\<close>

definition os_path_join :: "string \<Rightarrow> string \<Rightarrow> string" where
  "os_path_join a b =
     (if startswith b ''/'' then b
      else if a = [] \<or> endswith a ''/'' then a @ b
      else a @ ''/'' @ b)"

text \<open>
  \<^verbatim>\<open>converter\<close>, from the syllabus to the text of \<^verbatim>\<open>course.xml\<close> that \<^verbatim>\<open>save_xml\<close> writes
  (lines 283-372). The tree is the first component of the result. The archive is created
  after \<^verbatim>\<open>save_xml\<close> (lines 375-378), so it exists only if the result is \<open>Inr\<close>. Copying
  figures and the skeleton, writing the HTML files and the archive itself are not part
  of the model.
\<close>

definition build_course :: "env \<Rightarrow> string \<Rightarrow> error + xml" where
  "build_course e content_folder =
     (case parse_syllabus e (os_path_join content_folder ''syllabus.ipynb'') content_folder False of
        Inl err \<Rightarrow> Inl err
      | Inr chapters \<Rightarrow>
          (case course_xml e of
             Inl err \<Rightarrow> Inl err
           | Inr xml_course \<Rightarrow>
               (case for_each (add_chapter e) chapters of
                  Inl err \<Rightarrow> Inl err
                | Inr chapter_xmls \<Rightarrow>
                    Inr (Element (tag xml_course) (attrib xml_course)
                           (children xml_course @ chapter_xmls)))))"

definition converter :: "env \<Rightarrow> string \<Rightarrow> string option \<Rightarrow> error + (xml \<times> string)" where
  "converter e mooc_folder content_folder =
     (case build_course e (case content_folder of None \<Rightarrow> mooc_folder | Some f \<Rightarrow> f) of
        Inl err \<Rightarrow> Inl err
      | Inr xml_course \<Rightarrow> Inr (xml_course, save_xml e xml_course))"

subsection \<open>Notions used to state the properties\<close>

text \<open>The names of the section lines among the lines of a syllabus, in order.\<close>

definition sections_of :: "string list \<Rightarrow> string list" where
  "sections_of ls =
     concat (map (\<lambda>l. case match_syllabus_line l of Section nm \<Rightarrow> [nm] | _ \<Rightarrow> []) ls)"

text \<open>The number that a string of decimal digits denotes, and the digit characters.\<close>

definition decimal_value :: "string \<Rightarrow> nat" where
  "decimal_value s = foldl (\<lambda>a c. 10 * a + (of_char c - 48)) 0 s"


text \<open>
  A text cut into plain parts and math fragments: \<open>dollar_text\<close> writes the fragments with
  dollar delimiters, \<open>bracket_text\<close> with the bracket and parenthesis delimiters, and
  \<open>half_text\<close> is the text between the two substitutions. In a well-delimited text no
  part contains a dollar, no fragment contains a newline, and an inline fragment is not
  empty and is followed by a non-empty plain part or by the end of the text.
\<close>

datatype segment = Plain string | Inline string | Display string

fun dollar_text :: "segment list \<Rightarrow> string" where
  "dollar_text [] = []"
| "dollar_text (Plain t # r) = t @ dollar_text r"
| "dollar_text (Inline x # r) = ''$'' @ x @ ''$'' @ dollar_text r"
| "dollar_text (Display x # r) = ''$$'' @ x @ ''$$'' @ dollar_text r"

fun half_text :: "segment list \<Rightarrow> string" where
  "half_text [] = []"
| "half_text (Plain t # r) = t @ half_text r"
| "half_text (Inline x # r) = ''$'' @ x @ ''$'' @ half_text r"
| "half_text (Display x # r) = [backslash, CHR ''[''] @ x @ [backslash, CHR '']''] @ half_text r"

fun bracket_text :: "segment list \<Rightarrow> string" where
  "bracket_text [] = []"
| "bracket_text (Plain t # r) = t @ bracket_text r"
| "bracket_text (Inline x # r) = [backslash, CHR ''(''] @ x @ [backslash, CHR '')''] @ bracket_text r"
| "bracket_text (Display x # r) = [backslash, CHR ''[''] @ x @ [backslash, CHR '']''] @ bracket_text r"

definition math_body :: "string \<Rightarrow> bool" where
  "math_body x = (CHR ''$'' \<notin> set x \<and> newline \<notin> set x)"

fun well_delimited :: "segment list \<Rightarrow> bool" where
  "well_delimited [] = True"
| "well_delimited (Plain t # r) = (CHR ''$'' \<notin> set t \<and> well_delimited r)"
| "well_delimited (Display x # r) = (math_body x \<and> well_delimited r)"
| "well_delimited (Inline x # r) =
     (math_body x \<and> x \<noteq> []
      \<and> (case r of [] \<Rightarrow> True | Plain t # _ \<Rightarrow> t \<noteq> [] | _ \<Rightarrow> False)
      \<and> well_delimited r)"

text \<open>
  A text is heading-free if none of its lines starts with \<^verbatim>\<open># \<close>; a plain block is a cell
  that is not markdown or whose source is heading-free. \<open>plain_blocks\<close> are the blocks that
  reach a unit for a list of plain blocks: a markdown cell as the node made from its
  source, any other cell as it is. A title cell is what line 167 tests, and \<open>unsplit\<close>
  joins lines with newlines.
\<close>

definition heading_free :: "string \<Rightarrow> bool" where
  "heading_free text = list_all (\<lambda>l. \<not> is_heading_line l) (split_on newline text)"

definition plain_block :: "cell \<Rightarrow> bool" where
  "plain_block c = (cell_type c = Markdown \<longrightarrow> heading_free (source c))"

definition plain_blocks :: "cell list \<Rightarrow> cell list" where
  "plain_blocks xs = map (\<lambda>c. if cell_type c = Markdown then markdown_node (source c) else c) xs"

fun unsplit :: "string list \<Rightarrow> string" where
  "unsplit [] = []"
| "unsplit [l] = l"
| "unsplit (l # l' # ls) = l @ newline # unsplit (l' # ls)"

definition title_cell :: "cell \<Rightarrow> bool" where
  "title_cell c = (cell_type c = Markdown \<and> startswith (source c) ''# '')"





















text \<open>
  The heap of a unit during \<open>convert_unit_heap\<close>, against the cells \<open>cells0\<close> the unit had
  at the start: the cells at the positions \<open>pend\<close> (in the batch or not yet visited) are
  as they were, every other cell is its rewrite. \<open>heap_sim\<close> relates a result of the loop
  on the heap to the loop of \<open>convert_cells\<close> on the cells as values.
\<close>

definition heap_inv :: "cell list \<Rightarrow> cell list \<Rightarrow> nat list \<Rightarrow> bool" where
  "heap_inv cells0 heap pend =
     (length heap = length cells0 \<and> distinct pend \<and> (\<forall>a\<in>set pend. a < length cells0)
      \<and> (\<forall>a<length cells0. heap ! a = (if a \<in> set pend then cells0 ! a else rewrite_cell (cells0 ! a))))"

definition heap_sim ::
  "env \<Rightarrow> cell list \<Rightarrow> artifact list \<Rightarrow> nat list \<Rightarrow> nat list
     \<Rightarrow> cell list \<times> (error + (artifact list \<times> nat list)) \<Rightarrow> bool" where
  "heap_sim e c0 uo nc as res =
     (convert_cells e (uo, map (\<lambda>a. c0 ! a) nc) (map (\<lambda>a. c0 ! a) as)
        = map_sum id (\<lambda>st. (fst st, map (\<lambda>a. c0 ! a) (snd st))) (snd res)
      \<and> (\<exists>pend. heap_inv c0 (fst res) pend
                 \<and> (\<forall>st. snd res = Inr st \<longrightarrow> pend = snd st)))"

subsection \<open>Example inputs\<close>

text \<open>
  An environment with a one-entry release-date table, notebooks given as a table from
  paths to cells, an exporter that concatenates the sources, an XML parser that takes
  the payload as the tag of an element without attributes, and an XML printer that
  writes a declaration line and the tag of the element.
\<close>

definition example_env :: "(string \<times> cell list) list \<Rightarrow> env" where
  "example_env notebooks =
     \<lparr>release_dates = map_of [(''Week 1'', ''3 Sep 2018'')],
      nbformat_read = (\<lambda>path. case map_of notebooks path of
                                 None \<Rightarrow> Inl (LibraryError ''FileNotFoundError'')
                               | Some nb_cells \<Rightarrow> Inr nb_cells),
      from_notebook_node = (\<lambda>cs. Inr (concat (map source cs))),
      fromstring = (\<lambda>s. Inr (Element s [] [])),
      toprettyxml = (\<lambda>x. ''<?xml ?>'' @ newline # tag x),
      course_xml = Inr (Element ''course'' [] []),
      date_to_edx = (\<lambda>d. Inr d)\<rparr>"

definition markdown_cell :: "string \<Rightarrow> cell" where
  "markdown_cell src = \<lparr>cell_type = Markdown, source = src, metadata = [], outputs = None\<rparr>"

definition unlines :: "string list \<Rightarrow> string" where
  "unlines ls = concat (map (\<lambda>l. newline # l) ls)"

definition syllabus_two_sections :: "cell list" where
  "syllabus_two_sections =
     [markdown_cell (''# Syllabus'' @ unlines
        [''* **Introduction**'', ''  * [Welcome](w0/intro.ipynb)'',
         ''* **Week 1**'', ''  * [Topology](w1/topo.ipynb)'', ''  * [Assignments](w1/a.ipynb)''])]"

definition syllabus_orphan :: "cell list" where
  "syllabus_orphan =
     [markdown_cell (''# Syllabus'' @ unlines [''  * [Welcome](w0/intro.ipynb)'', ''* **Week 1**''])]"

definition week1_notebooks :: "(string \<times> cell list) list" where
  "week1_notebooks =
     [(''c/syllabus.ipynb'', syllabus_two_sections),
      (''c/w1/topo.ipynb'', [markdown_cell (''# Bands'' @ unlines [''Text''])]),
      (''c/w1/a.ipynb'', [markdown_cell ''# Tasks''])]"

definition week1_chapter :: chapter_ns where
  "week1_chapter = make_chapter ''c'' (1, (''Week 1'', Some ''3 Sep 2018'',
              [(''Topology'', ''w1/topo.ipynb''), (''Assignments'', ''w1/a.ipynb'')]))"

definition html_leaf :: "string \<Rightarrow> string \<Rightarrow> xml" where
  "html_leaf url display =
     Element ''html'' [(''url_name'', url), (''display_name'', display), (''filename'', url)] []"

definition week1_chapter_xml :: xml where
  "week1_chapter_xml =
     Element ''chapter''
       [(''url_name'', ''sec_01''), (''display_name'', ''Week 1''), (''start'', ''3 Sep 2018'')]
       [Element ''sequential''
         [(''url_name'', ''subsec_01_00''), (''display_name'', ''Topology''),
          (''graded'', ''true''), (''format'', ''Self-check'')]
         [Element ''vertical''
           [(''url_name'', ''subsec_01_00_00''), (''display_name'', ''Bands'')]
           [html_leaf ''subsec_01_00_00_out_00'' ''Bands'']],
        Element ''sequential''
         [(''url_name'', ''subsec_01_01''), (''display_name'', ''Assignments''),
          (''graded'', ''true''), (''format'', ''Research'')]
         [Element ''vertical''
           [(''url_name'', ''subsec_01_01_00''), (''display_name'', ''Tasks'')]
           [html_leaf ''subsec_01_01_00_out_00'' ''Tasks'']]]"

definition two_component_cell :: cell where
  "two_component_cell =
     \<lparr>cell_type = Code, source = ''Video()'', metadata = [],
      outputs = Some [\<lparr>data = Some [(olxml, ''video'')]\<rparr>,
                      \<lparr>data = Some [(''text/plain'', ''x''), (olxml, ''problem'')]\<rparr>]\<rparr>"

definition two_component_notebooks :: "(string \<times> cell list) list" where
  "two_component_notebooks =
     [(''c/syllabus.ipynb'', syllabus_two_sections),
      (''c/w1/topo.ipynb'', [markdown_cell ''# Bands'', two_component_cell]),
      (''c/w1/a.ipynb'', [markdown_cell ''# Tasks''])]"

definition equation_cell :: cell where
  "equation_cell =
     markdown_cell (backslash # ''begin{equation}x'' @ backslash # ''end{ equation }'')"

definition code_cell :: "string \<Rightarrow> cell" where
  "code_cell src = \<lparr>cell_type = Code, source = src, metadata = [], outputs = Some []\<rparr>"










section \<open>Properties\<close>

subsection \<open>Syllabus parser\<close>

lemma butlast_snoc_fst:
  "acc \<noteq> [] \<Longrightarrow> last acc = (nm, d, subs) \<Longrightarrow> map fst (butlast acc @ [(nm, d, subs')]) = map fst acc"
proof -
  assume a: "acc \<noteq> []" and l: "last acc = (nm, d, subs)"
  from a have "acc = butlast acc @ [last acc]" by simp
  then have "map fst acc = map fst (butlast acc) @ [fst (last acc)]"
    by (metis (no_types) list.simps(8,9) map_append)
  with l show ?thesis by simp
qed

lemma parse_lines_names:
  "parse_lines e acc ls = Inr syl \<Longrightarrow> map fst syl = map fst acc @ sections_of ls"
proof (induction ls arbitrary: acc)
  case Nil
  then show ?case by (simp add: sections_of_def)
next
  case (Cons l ls)
  show ?case
  proof (cases "match_syllabus_line l")
    case NoMatch
    with Cons show ?thesis by (simp add: sections_of_def)
  next
    case (Section nm)
    with Cons.prems have "parse_lines e (acc @ [(nm, release_dates e nm, [])]) ls = Inr syl" by simp
    from Cons.IH[OF this] Section show ?thesis by (simp add: sections_of_def)
  next
    case (Subsection t f)
    show ?thesis
    proof (cases acc)
      case Nil
      with Cons.prems Subsection show ?thesis by simp
    next
      case (Cons a as)
      obtain nm d subs where la: "last acc = (nm, d, subs)" by (cases "last acc") auto
      from Cons have ne: "acc \<noteq> []" by simp
      from Cons.prems Subsection Cons la
      have "parse_lines e (butlast acc @ [(nm, d, subs @ [(t, f)])]) ls = Inr syl" by simp
      from Cons.IH[OF this] butlast_snoc_fst[OF ne la] Subsection
      show ?thesis by (simp add: sections_of_def)
    qed
  qed
qed

lemma parse_lines_dates:
  "\<forall>x\<in>set acc. fst (snd x) = release_dates e (fst x) \<Longrightarrow> parse_lines e acc ls = Inr syl
   \<Longrightarrow> \<forall>x\<in>set syl. fst (snd x) = release_dates e (fst x)"
proof (induction ls arbitrary: acc)
  case Nil
  then show ?case by simp
next
  case (Cons l ls)
  show ?case
  proof (cases "match_syllabus_line l")
    case NoMatch
    with Cons show ?thesis by simp
  next
    case (Section nm)
    with Cons.prems have p: "parse_lines e (acc @ [(nm, release_dates e nm, [])]) ls = Inr syl" by simp
    from Cons.prems(1) have "\<forall>x\<in>set (acc @ [(nm, release_dates e nm, [])]). fst (snd x) = release_dates e (fst x)"
      by simp
    from Cons.IH[OF this p] show ?thesis .
  next
    case (Subsection t f)
    show ?thesis
    proof (cases acc)
      case Nil
      with Cons.prems Subsection show ?thesis by simp
    next
      case (Cons a as)
      obtain nm d subs where la: "last acc = (nm, d, subs)" by (cases "last acc") auto
      from Cons have ne: "acc \<noteq> []" by simp
      from Cons.prems Subsection Cons la
      have p: "parse_lines e (butlast acc @ [(nm, d, subs @ [(t, f)])]) ls = Inr syl" by simp
      from ne have "last acc \<in> set acc" by simp
      with Cons.prems(1) la have "d = release_dates e nm" by fastforce
      moreover have "\<forall>x\<in>set (butlast acc). fst (snd x) = release_dates e (fst x)"
        using Cons.prems(1) by (meson in_set_butlastD)
      ultimately have "\<forall>x\<in>set (butlast acc @ [(nm, d, subs @ [(t, f)])]). fst (snd x) = release_dates e (fst x)"
        by simp
      from Cons.IH[OF this p] show ?thesis .
    qed
  qed
qed

lemma parse_lines_no_section:
  "\<forall>x\<in>set pre. \<forall>nm. match_syllabus_line x \<noteq> Section nm \<Longrightarrow>
   match_syllabus_line l = Subsection t f \<Longrightarrow>
   parse_lines e [] (pre @ l # post) = Inl IndexError"
proof (induction pre)
  case Nil
  then show ?case by simp
next
  case (Cons x pre)
  then show ?case by (cases "match_syllabus_line x") simp_all
qed

lemma chapter_name_make_chapters:
  "map chapter_name (make_chapters cf True syl) = map fst syl"
proof -
  have "map chapter_name (make_chapters cf True syl) = map (fst \<circ> snd) (enumerate 0 syl)"
    by (simp add: make_chapters_def make_chapter_def split_def comp_def)
  also have "\<dots> = map fst (map snd (enumerate 0 syl))" by (simp only: map_map)
  also have "\<dots> = map fst syl" by (simp only: map_snd_enumerate)
  finally show ?thesis .
qed

lemma make_chapters_default:
  "make_chapters cf False syl = filter (\<lambda>c. chapter_date c \<noteq> None) (make_chapters cf True syl)"
  by (simp add: make_chapters_def filter_map comp_def make_chapter_def split_def)

lemma make_chapters_dates:
  assumes "\<forall>x\<in>set syl. fst (snd x) = release_dates e (fst x)"
    and "c \<in> set (make_chapters cf parse_all syl)"
  shows "chapter_date c = release_dates e (chapter_name c)"
proof -
  from assms(2) obtain i s where "(i, s) \<in> set (enumerate 0 syl)" and c: "c = make_chapter cf (i, s)"
    by (auto simp: make_chapters_def)
  then have "s \<in> set syl" by (auto simp: in_set_enumerate_eq)
  with assms(1) c show ?thesis by (simp add: make_chapter_def)
qed

text \<open>
  C5. If the syllabus lines parse, the full-content mode (\<open>parse_all\<close> true) returns one
  chapter for every section line, in order, and the default mode returns exactly those
  of them whose name has an entry in the release-date table, each with the same
  subsections: a section without a release date is dropped with its subsections.
\<close>

theorem parse_syllabus_release_filter:
  assumes "split_into_units e syllabus_file True = Inr (syll # others)"
    and "1 < length (cells syll)"
    and "parse_lines e [] (split_on newline (source (cells syll ! 1))) = Inr syllabus"
  shows "\<exists>full. parse_syllabus e syllabus_file cf True = Inr full
           \<and> map chapter_name full = sections_of (split_on newline (source (cells syll ! 1)))
           \<and> parse_syllabus e syllabus_file cf False
               = Inr (filter (\<lambda>c. release_dates e (chapter_name c) \<noteq> None) full)"
proof -
  let ?full = "make_chapters cf True syllabus"
  from assms have f: "parse_syllabus e syllabus_file cf True = Inr ?full"
    by (simp add: parse_syllabus_def)
  from assms have d: "parse_syllabus e syllabus_file cf False = Inr (make_chapters cf False syllabus)"
    by (simp add: parse_syllabus_def)
  from parse_lines_names[OF assms(3)]
  have n: "map chapter_name ?full = sections_of (split_on newline (source (cells syll ! 1)))"
    by (simp add: chapter_name_make_chapters)
  have inv: "\<forall>x\<in>set syllabus. fst (snd x) = release_dates e (fst x)"
    by (rule parse_lines_dates[OF _ assms(3)]) simp
  have "filter (\<lambda>c. chapter_date c \<noteq> None) ?full
        = filter (\<lambda>c. release_dates e (chapter_name c) \<noteq> None) ?full"
    by (rule filter_cong) (simp_all add: make_chapters_dates[OF inv])
  with d have "parse_syllabus e syllabus_file cf False
      = Inr (filter (\<lambda>c. release_dates e (chapter_name c) \<noteq> None) ?full)"
    by (simp add: make_chapters_default)
  with f n show ?thesis by blast
qed

theorem parse_syllabus_release_filter_witness:
  "\<exists>full dflt.
     parse_syllabus (example_env [(''c/syllabus.ipynb'', syllabus_two_sections)])
       ''c/syllabus.ipynb'' ''c'' True = Inr full
     \<and> map chapter_name full = [''Introduction'', ''Week 1'']
     \<and> parse_syllabus (example_env [(''c/syllabus.ipynb'', syllabus_two_sections)])
       ''c/syllabus.ipynb'' ''c'' False = Inr dflt
     \<and> map chapter_name dflt = [''Week 1'']"
proof -
  let ?e = "example_env [(''c/syllabus.ipynb'', syllabus_two_sections)]"
  let ?src = "unlines [''* **Introduction**'', ''  * [Welcome](w0/intro.ipynb)'',
         ''* **Week 1**'', ''  * [Topology](w1/topo.ipynb)'', ''  * [Assignments](w1/a.ipynb)'']"
  let ?syll = "\<lparr>unit_name = ''Syllabus'', cells = [markdown_node ''# Syllabus'', markdown_node ?src]\<rparr>"
  have h1: "split_into_units ?e ''c/syllabus.ipynb'' True = Inr (?syll # [])"
    by code_simp
  have h2: "1 < length (cells ?syll)" by simp
  have h3: "parse_lines ?e [] (split_on newline (source (cells ?syll ! 1)))
      = Inr [(''Introduction'', None, [(''Welcome'', ''w0/intro.ipynb'')]),
             (''Week 1'', Some ''3 Sep 2018'',
              [(''Topology'', ''w1/topo.ipynb''), (''Assignments'', ''w1/a.ipynb'')])]"
    by code_simp
  have names: "sections_of (split_on newline (source (cells ?syll ! 1))) = [''Introduction'', ''Week 1'']"
    by code_simp
  from parse_syllabus_release_filter[OF h1 h2 h3, of "''c''"] names
  obtain full where f: "parse_syllabus ?e ''c/syllabus.ipynb'' ''c'' True = Inr full"
    and n: "map chapter_name full = [''Introduction'', ''Week 1'']"
    and d: "parse_syllabus ?e ''c/syllabus.ipynb'' ''c'' False
              = Inr (filter (\<lambda>c. release_dates ?e (chapter_name c) \<noteq> None) full)"
    by auto
  have "map chapter_name (filter (\<lambda>c. release_dates ?e (chapter_name c) \<noteq> None) full)
        = filter (\<lambda>nm. release_dates ?e nm \<noteq> None) (map chapter_name full)"
    by (simp add: filter_map comp_def)
  also have "\<dots> = [''Week 1'']" unfolding n by (simp add: example_env_def)
  finally have m: "map chapter_name (filter (\<lambda>c. release_dates ?e (chapter_name c) \<noteq> None) full)
        = [''Week 1'']" .
  show ?thesis
    by (rule exI[of _ full],
        rule exI[of _ "filter (\<lambda>c. release_dates ?e (chapter_name c) \<noteq> None) full"])
       (simp only: f n d m simp_thms)
qed

text \<open>
  C10. If, among the lines that the parser reads, a subsection line comes before every
  section line, \<open>parse_syllabus\<close> raises \<open>IndexError\<close> in either mode.
\<close>

theorem parse_syllabus_subsection_before_section:
  assumes "split_into_units e syllabus_file True = Inr (syll # others)"
    and "1 < length (cells syll)"
    and "split_on newline (source (cells syll ! 1)) = pre @ line # post"
    and "\<forall>x\<in>set pre. \<forall>nm. match_syllabus_line x \<noteq> Section nm"
    and "match_syllabus_line line = Subsection title filename"
  shows "parse_syllabus e syllabus_file cf parse_all = Inl IndexError"
  using assms parse_lines_no_section[OF assms(4,5), of e post]
  by (simp add: parse_syllabus_def)

theorem parse_syllabus_subsection_before_section_witness:
  "parse_syllabus (example_env [(''c/syllabus.ipynb'', syllabus_orphan)])
     ''c/syllabus.ipynb'' ''c'' False = Inl IndexError"
proof -
  let ?e = "example_env [(''c/syllabus.ipynb'', syllabus_orphan)]"
  let ?src = "unlines [''  * [Welcome](w0/intro.ipynb)'', ''* **Week 1**'']"
  let ?syll = "\<lparr>unit_name = ''Syllabus'', cells = [markdown_node ''# Syllabus'', markdown_node ?src]\<rparr>"
  have h1: "split_into_units ?e ''c/syllabus.ipynb'' True = Inr (?syll # [])"
    by code_simp
  have h2: "1 < length (cells ?syll)" by simp
  have h3: "split_on newline (source (cells ?syll ! 1))
      = [[]] @ ''  * [Welcome](w0/intro.ipynb)'' # [''* **Week 1**'']"
    by code_simp
  have h4: "\<forall>x\<in>set [[]]. \<forall>nm. match_syllabus_line x \<noteq> Section nm"
    by (simp add: match_syllabus_line_def match_section_def match_subsection_def startswith_def)
  have h5: "match_syllabus_line ''  * [Welcome](w0/intro.ipynb)'' = Subsection ''Welcome'' ''w0/intro.ipynb''"
    by code_simp
  show ?thesis
    by (rule parse_syllabus_subsection_before_section[OF h1 h2 h3 h4 h5])
qed

subsection \<open>Unit splitter\<close>

lemma split_on_nonempty: "split_on c s \<noteq> []"
  by (induction s) (auto split: list.splits)

lemma unsplit_cons_char: "ls \<noteq> [] \<Longrightarrow> unsplit ((x # hd ls) # tl ls) = x # unsplit ls"
  by (cases ls; cases "tl ls") auto

lemma unsplit_split_on: "unsplit (split_on newline s) = s"
proof (induction s)
  case Nil
  show ?case by simp
next
  case (Cons x s)
  obtain l ls where sp: "split_on newline s = l # ls"
    using split_on_nonempty[of newline s] by (cases "split_on newline s") auto
  show ?case
  proof (cases "x = newline")
    case True
    with sp Cons show ?thesis by simp
  next
    case False
    with sp Cons unsplit_cons_char[of "l # ls" x] show ?thesis by simp
  qed
qed

lemma re_split_lines_plain:
  "ls \<noteq> [] \<Longrightarrow> list_all (\<lambda>l. \<not> is_heading_line l) ls \<Longrightarrow> re_split_lines acc ls = [acc @ unsplit ls]"
  by (induction acc ls rule: re_split_lines.induct) simp_all

lemma re_split_headings_plain: "heading_free s \<Longrightarrow> re_split_headings s = [s]"
  unfolding heading_free_def re_split_headings_def
  using re_split_lines_plain[OF split_on_nonempty, of newline s "[]"] unsplit_split_on[of s]
  by simp

lemma split_on_no_sep: "c \<notin> set h \<Longrightarrow> split_on c h = [h]"
  by (induction h) auto

lemma split_on_prefix: "c \<notin> set h \<Longrightarrow> split_on c (h @ c # t) = h # split_on c t"
  by (induction h) auto

lemma heading_free_after_newline: "heading_free (newline # text) \<Longrightarrow> heading_free text"
  by (simp add: heading_free_def)

lemma re_split_headings_heading:
  assumes "newline \<notin> set t" and "rest = [] \<or> hd rest = newline" and "heading_free rest"
  shows "re_split_headings (''# '' @ t @ rest) = [[], ''# '' @ t, rest]"
proof (cases rest)
  case Nil
  from assms(1) have "split_on newline (''# '' @ t) = [''# '' @ t]"
    by (intro split_on_no_sep) simp
  with Nil show ?thesis
    by (simp add: re_split_headings_def is_heading_line_def startswith_def)
next
  case (Cons c body)
  with assms(2) have r: "rest = newline # body" by simp
  with assms(3) have hf: "list_all (\<lambda>l. \<not> is_heading_line l) (split_on newline body)"
    by (simp add: heading_free_def)
  obtain l ls where sp: "split_on newline body = l # ls"
    using split_on_nonempty[of newline body] by (cases "split_on newline body") auto
  from assms(1) have "split_on newline ((''# '' @ t) @ newline # body) = (''# '' @ t) # split_on newline body"
    by (intro split_on_prefix) simp
  then have "re_split_headings (''# '' @ t @ rest) = re_split_lines [] ((''# '' @ t) # l # ls)"
    by (simp add: re_split_headings_def r sp)
  also have "\<dots> = [] # (''# '' @ t) # re_split_lines [newline] (l # ls)"
    by (simp add: is_heading_line_def startswith_def)
  also have "re_split_lines [newline] (l # ls) = [[newline] @ unsplit (l # ls)]"
    using hf sp by (intro re_split_lines_plain) simp_all
  also have "unsplit (l # ls) = body" using unsplit_split_on[of body] sp by simp
  finally show ?thesis by (simp add: r)
qed

lemma collect_units_step_plain:
  "\<not> title_cell c \<Longrightarrow>
   collect_units ih units (c # rest)
     = (if units = [] then collect_units ih units rest
        else collect_units ih (append_to_last units c) rest)"
  by (auto simp: title_cell_def)

lemma collect_units_step_title:
  "title_cell c \<Longrightarrow> match_title (source c) = Some nm \<Longrightarrow>
   collect_units ih units (c # rest)
     = collect_units ih
         (if ih then append_to_last (units @ [\<lparr>unit_name = nm, cells = []\<rparr>]) c
          else units @ [\<lparr>unit_name = nm, cells = []\<rparr>]) rest"
  by (simp add: title_cell_def Let_def)

lemma collect_units_discard:
  "\<forall>c\<in>set ps. \<not> title_cell c \<Longrightarrow> collect_units ih [] (ps @ rest) = collect_units ih [] rest"
  by (induction ps) (simp_all add: collect_units_step_plain del: collect_units.simps)

lemma collect_units_plain:
  "\<forall>c\<in>set ps. \<not> title_cell c \<Longrightarrow>
   collect_units ih (us @ [u]) (ps @ rest) = collect_units ih (us @ [u\<lparr>cells := cells u @ ps\<rparr>]) rest"
proof (induction ps arbitrary: u)
  case Nil
  show ?case by simp
next
  case (Cons c ps)
  then have nt: "\<not> title_cell c" and rest: "\<forall>c\<in>set ps. \<not> title_cell c"
    by simp_all
  have "collect_units ih (us @ [u]) ((c # ps) @ rest)
      = collect_units ih (us @ [u\<lparr>cells := cells u @ [c]\<rparr>]) (ps @ rest)"
    by (simp add: collect_units_step_plain[OF nt] append_to_last_def del: collect_units.simps)
  also have "\<dots> = collect_units ih (us @ [u\<lparr>cells := cells u @ [c] @ ps\<rparr>]) rest"
    using Cons.IH[OF rest, of "u\<lparr>cells := cells u @ [c]\<rparr>"] by simp
  finally show ?case by simp
qed

lemma match_title_line: "newline \<notin> set t \<Longrightarrow> match_title (''# '' @ t) = Some t"
proof -
  assume "newline \<notin> set t"
  then have "takeWhile (\<lambda>c. c \<noteq> newline) t = t" and "dropWhile (\<lambda>c. c \<noteq> newline) t = []"
    by auto
  then show ?thesis by (simp add: match_title_def startswith_def Let_def)
qed

lemma collect_units_title:
  assumes "newline \<notin> set t"
  shows "collect_units ih units (markdown_node (''# '' @ t) # rest)
       = collect_units ih (units @ [\<lparr>unit_name = t,
                                     cells = (if ih then [markdown_node (''# '' @ t)] else [])\<rparr>]) rest"
proof -
  have tc: "title_cell (markdown_node (''# '' @ t))"
    by (simp add: title_cell_def markdown_node_def startswith_def)
  have mt: "match_title (source (markdown_node (''# '' @ t))) = Some t"
    using match_title_line[OF assms] by (simp add: markdown_node_def)
  show ?thesis
    unfolding collect_units_step_title[OF tc mt] by (simp add: append_to_last_def)
qed

lemma heading_free_not_title: "heading_free s \<Longrightarrow> \<not> startswith s ''# ''"
proof
  assume hf: "heading_free s" and st: "startswith s ''# ''"
  from st obtain s' where s: "s = CHR ''#'' # CHR '' '' # s'"
    by (cases s; cases "tl s") (auto simp: startswith_def)
  obtain l ls where sp: "split_on newline s' = l # ls"
    using split_on_nonempty[of newline s'] by (cases "split_on newline s'") auto
  have "split_on newline s = (CHR ''#'' # CHR '' '' # l) # ls"
    unfolding s by (simp add: sp)
  with hf show False by (simp add: heading_free_def is_heading_line_def startswith_def)
qed

lemma plain_blocks_not_title:
  assumes "\<forall>c\<in>set xs. plain_block c"
  shows "\<forall>c\<in>set (plain_blocks xs). \<not> title_cell c"
proof
  fix c
  note a = assms
  assume "c \<in> set (plain_blocks xs)"
  then obtain x where x: "x \<in> set xs"
    and c: "c = (if cell_type x = Markdown then markdown_node (source x) else x)"
    by (auto simp: plain_blocks_def)
  show "\<not> title_cell c"
  proof (cases "cell_type x = Markdown")
    case True
    with a x have "heading_free (source x)" by (simp add: plain_block_def)
    then have "\<not> startswith (source x) ''# ''" by (rule heading_free_not_title)
    with c True show ?thesis by (simp add: title_cell_def markdown_node_def)
  next
    case False
    with c show ?thesis by (simp add: title_cell_def)
  qed
qed

lemma split_pieces_plain:
  "\<forall>c\<in>set xs. plain_block c \<Longrightarrow>
   concat (map (\<lambda>cell. if cell_type cell \<noteq> Markdown then [cell]
                        else map markdown_node (re_split_headings (source cell))) xs)
   = plain_blocks xs"
  by (induction xs) (simp_all add: plain_blocks_def plain_block_def re_split_headings_plain)

lemma markdown_node_not_title: "heading_free s \<Longrightarrow> \<not> title_cell (markdown_node s)"
  using heading_free_not_title[of s] by (simp add: title_cell_def markdown_node_def)

lemma heading_free_empty: "heading_free []"
  by (simp add: heading_free_def is_heading_line_def startswith_def)

lemma split_piece_heading:
  assumes "cell_type c = Markdown" and "source c = ''# '' @ t @ rest"
    and "newline \<notin> set t" and "rest = [] \<or> hd rest = newline" and "heading_free rest"
  shows "(if cell_type c \<noteq> Markdown then [c] else map markdown_node (re_split_headings (source c)))
       = [markdown_node [], markdown_node (''# '' @ t), markdown_node rest]"
  using assms(1,2) re_split_headings_heading[OF assms(3-5)] by simp

lemma collect_units_two_headings:
  assumes pa: "\<forall>c\<in>set p. \<not> title_cell c" and xa: "\<forall>c\<in>set x. \<not> title_cell c"
    and ya: "\<forall>c\<in>set y. \<not> title_cell c"
    and ta: "newline \<notin> set ta" and tb: "newline \<notin> set tb"
  shows "collect_units ih [] (p @ markdown_node (''# '' @ ta) # x @ markdown_node (''# '' @ tb) # y)
       = Inr [\<lparr>unit_name = ta, cells = (if ih then [markdown_node (''# '' @ ta)] else []) @ x\<rparr>,
              \<lparr>unit_name = tb, cells = (if ih then [markdown_node (''# '' @ tb)] else []) @ y\<rparr>]"
proof -
  let ?ha = "markdown_node (''# '' @ ta)" and ?hb = "markdown_node (''# '' @ tb)"
  let ?ua = "\<lparr>unit_name = ta, cells = (if ih then [?ha] else [])\<rparr>"
  let ?ub = "\<lparr>unit_name = tb, cells = (if ih then [?hb] else [])\<rparr>"
  have "collect_units ih [] (p @ ?ha # x @ ?hb # y) = collect_units ih [] (?ha # x @ ?hb # y)"
    by (rule collect_units_discard[OF pa])
  also have "\<dots> = collect_units ih ([] @ [?ua]) (x @ ?hb # y)"
    using collect_units_title[OF ta, of ih "[]" "x @ ?hb # y"] by simp
  also have "\<dots> = collect_units ih ([] @ [?ua\<lparr>cells := cells ?ua @ x\<rparr>]) (?hb # y)"
    by (rule collect_units_plain[OF xa])
  also have "\<dots> = collect_units ih ([?ua\<lparr>cells := cells ?ua @ x\<rparr>] @ [?ub]) (y @ [])"
    using collect_units_title[OF tb, of ih "[?ua\<lparr>cells := cells ?ua @ x\<rparr>]" y] by simp
  also have "\<dots> = collect_units ih ([?ua\<lparr>cells := cells ?ua @ x\<rparr>] @ [?ub\<lparr>cells := cells ?ub @ y\<rparr>]) []"
    by (rule collect_units_plain[OF ya])
  finally show ?thesis by simp
qed

text \<open>
  C2. A document that consists of plain blocks, a markdown cell that starts with the
  heading line \<^verbatim>\<open># ta\<close>, plain blocks, a markdown cell that starts with the heading line
  \<^verbatim>\<open># tb\<close>, and plain blocks again, splits into exactly two units named \<open>ta\<close> and \<open>tb\<close>.
  Each unit holds the heading block if \<open>include_header\<close> is set, then the rest of its
  heading cell and the blocks up to the next heading (with the empty text that
  \<^verbatim>\<open>re.split\<close> yields before a heading at the start of a cell); the blocks before the first
  heading are in no unit. The claim is the case \<open>ta = A\<close>, \<open>tb = B\<close>.
\<close>

theorem split_two_headings:
  assumes "nbformat_read e nb_name = Inr (pre @ cell_a # xs @ cell_b # ys)"
    and "\<forall>c\<in>set (pre @ xs @ ys). plain_block c"
    and "cell_type cell_a = Markdown" and "source cell_a = ''# '' @ ta @ rest_a"
    and "newline \<notin> set ta" and "rest_a = [] \<or> hd rest_a = newline" and "heading_free rest_a"
    and "cell_type cell_b = Markdown" and "source cell_b = ''# '' @ tb @ rest_b"
    and "newline \<notin> set tb" and "rest_b = [] \<or> hd rest_b = newline" and "heading_free rest_b"
  shows "split_into_units e nb_name include_header
       = Inr [\<lparr>unit_name = ta,
               cells = (if include_header then [markdown_node (''# '' @ ta)] else [])
                       @ markdown_node rest_a # plain_blocks xs @ [markdown_node []]\<rparr>,
              \<lparr>unit_name = tb,
               cells = (if include_header then [markdown_node (''# '' @ tb)] else [])
                       @ markdown_node rest_b # plain_blocks ys\<rparr>]"
proof -
  let ?P = "\<lambda>cell. cell_type cell \<noteq> Markdown"
  let ?f = "\<lambda>cell. if cell_type cell \<noteq> Markdown then [cell]
                     else map markdown_node (re_split_headings (source cell))"
  let ?pre = "dropWhile ?P pre"
  let ?ha = "markdown_node (''# '' @ ta)" and ?hb = "markdown_node (''# '' @ tb)"
  from assms(3) have "dropWhile ?P (pre @ cell_a # xs @ cell_b # ys) = ?pre @ cell_a # xs @ cell_b # ys"
    by (intro dropWhile_append3) simp
  then have sc: "split_cells (pre @ cell_a # xs @ cell_b # ys)
      = concat (map ?f ?pre) @ ?f cell_a @ concat (map ?f xs) @ ?f cell_b @ concat (map ?f ys)"
    by (simp add: split_cells_def)
  from assms(2) have pp: "\<forall>c\<in>set ?pre. plain_block c" and px: "\<forall>c\<in>set xs. plain_block c"
    and py: "\<forall>c\<in>set ys. plain_block c"
    by (auto dest: set_dropWhileD)
  have fa: "?f cell_a = [markdown_node [], ?ha, markdown_node rest_a]"
    by (rule split_piece_heading[OF assms(3-7)])
  have fb: "?f cell_b = [markdown_node [], ?hb, markdown_node rest_b]"
    by (rule split_piece_heading[OF assms(8-12)])
  have sc': "split_cells (pre @ cell_a # xs @ cell_b # ys)
      = (plain_blocks ?pre @ [markdown_node []]) @ ?ha
        # (markdown_node rest_a # plain_blocks xs @ [markdown_node []]) @ ?hb
        # (markdown_node rest_b # plain_blocks ys)"
    unfolding sc fa fb split_pieces_plain[OF pp] split_pieces_plain[OF px] split_pieces_plain[OF py]
    by simp
  have e0: "\<not> title_cell (markdown_node [])"
    by (rule markdown_node_not_title[OF heading_free_empty])
  have n1: "\<forall>c\<in>set (plain_blocks ?pre @ [markdown_node []]). \<not> title_cell c"
    using plain_blocks_not_title[OF pp] e0 by simp
  have n2: "\<forall>c\<in>set (markdown_node rest_a # plain_blocks xs @ [markdown_node []]). \<not> title_cell c"
    using plain_blocks_not_title[OF px] e0 markdown_node_not_title[OF assms(7)] by simp
  have n3: "\<forall>c\<in>set (markdown_node rest_b # plain_blocks ys). \<not> title_cell c"
    using plain_blocks_not_title[OF py] markdown_node_not_title[OF assms(12)] by simp
  show ?thesis
    unfolding split_into_units_def assms(1) sum.case sc'
    by (simp only: collect_units_two_headings[OF n1 n2 n3 assms(5) assms(10)])
qed

theorem split_two_headings_witness:
  "split_into_units
     (example_env [(''nb'', [] @ markdown_cell ''# A'' # [code_cell ''# not a heading'', markdown_cell ''text'']
                            @ markdown_cell ''# B'' # [markdown_cell ''more''])])
     ''nb'' True
   = Inr [\<lparr>unit_name = ''A'',
           cells = [markdown_node ''# A'', markdown_node [], code_cell ''# not a heading'',
                    markdown_node ''text'', markdown_node []]\<rparr>,
          \<lparr>unit_name = ''B'',
           cells = [markdown_node ''# B'', markdown_node [], markdown_node ''more'']\<rparr>]"
proof -
  let ?xs = "[code_cell ''# not a heading'', markdown_cell ''text'']"
  let ?ys = "[markdown_cell ''more'']"
  let ?e = "example_env [(''nb'', [] @ markdown_cell ''# A'' # ?xs @ markdown_cell ''# B'' # ?ys)]"
  have h1: "nbformat_read ?e ''nb'' = Inr ([] @ markdown_cell ''# A'' # ?xs @ markdown_cell ''# B'' # ?ys)"
    by (simp add: example_env_def)
  have h2: "\<forall>c\<in>set ([] @ ?xs @ ?ys). plain_block c" by code_simp
  have h3: "cell_type (markdown_cell ''# A'') = Markdown" by (simp add: markdown_cell_def)
  have h4: "source (markdown_cell ''# A'') = ''# '' @ ''A'' @ []" by (simp add: markdown_cell_def)
  have h5: "newline \<notin> set ''A''" by simp
  have h6: "[] = [] \<or> hd [] = newline" by simp
  have h7: "heading_free []" by code_simp
  have h8: "cell_type (markdown_cell ''# B'') = Markdown" by (simp add: markdown_cell_def)
  have h9: "source (markdown_cell ''# B'') = ''# '' @ ''B'' @ []" by (simp add: markdown_cell_def)
  have h10: "newline \<notin> set ''B''" by simp
  have pb: "plain_blocks ?xs = [code_cell ''# not a heading'', markdown_node ''text'']"
    "plain_blocks ?ys = [markdown_node ''more'']"
    by (simp_all add: plain_blocks_def code_cell_def markdown_cell_def)
  from split_two_headings[OF h1 h2 h3 h4 h5 h6 h7 h8 h9 h10 h6 h7, of True]
  show ?thesis unfolding pb by simp
qed

subsection \<open>Identifier formatting\<close>

lemma decimal_value_snoc:
  "decimal_value (s @ [c]) = 10 * decimal_value s + (of_char c - 48)"
  by (simp add: decimal_value_def)

lemma of_char_digit_char: "d < 10 \<Longrightarrow> of_char (digit_char d) = (48 + d :: nat)"
  by (simp add: digit_char_def)

lemma decimal_value_decimal: "decimal_value (decimal n) = n"
proof (induction n rule: decimal.induct)
  case (1 n)
  show ?case
  proof (cases "n < 10")
    case True
    then have "decimal n = [digit_char n]" by (simp add: decimal.simps)
    with True show ?thesis by (simp add: decimal_value_def of_char_digit_char)
  next
    case False
    then have d: "decimal n = decimal (n div 10) @ [digit_char (n mod 10)]"
      by (subst decimal.simps) simp
    from False 1 have "decimal_value (decimal (n div 10)) = n div 10" by simp
    then show ?thesis unfolding d decimal_value_snoc
      by (simp add: of_char_digit_char)
  qed
qed

lemma decimal_value_zeros: "decimal_value (replicate k (CHR ''0'') @ s) = decimal_value s"
proof -
  have "foldl (\<lambda>a c. 10 * a + (of_char c - 48)) (0::nat) (replicate k (CHR ''0'')) = 0"
    by (induction k) simp_all
  then show ?thesis by (simp add: decimal_value_def)
qed

lemma decimal_value_format_02: "decimal_value (format_02 i) = i"
  by (simp add: format_02_def decimal_value_zeros decimal_value_decimal)

lemma format_02_inj: "format_02 i = format_02 j \<Longrightarrow> i = j"
  by (metis decimal_value_format_02)

lemma format_02_zero: "format_02 i = ''00'' \<longleftrightarrow> i = 0"
proof -
  have z: "format_02 0 = ''00''" by code_simp
  show ?thesis
  proof
    assume "format_02 i = ''00''"
    with z have "format_02 i = format_02 0" by simp
    then show "i = 0" by (rule format_02_inj)
  next
    assume "i = 0"
    with z show "format_02 i = ''00''" by simp
  qed
qed





lemma format_02_nonempty: "format_02 n \<noteq> []"
proof -
  have "decimal n \<noteq> []" by (subst decimal.simps) simp
  then show ?thesis by (simp add: format_02_def)
qed

subsection \<open>Course tree builder\<close>

lemma for_each_all2:
  "for_each f xs = Inr ys \<Longrightarrow> list_all2 (\<lambda>x y. f x = Inr y) xs ys"
  by (induction xs arbitrary: ys) (auto split: sum.splits)

lemma for_each_member:
  "for_each f xs = Inr ys \<Longrightarrow> y \<in> set ys \<Longrightarrow> \<exists>x\<in>set xs. f x = Inr y"
proof -
  assume r: "for_each f xs = Inr ys" and y: "y \<in> set ys"
  from r have a: "list_all2 (\<lambda>x y. f x = Inr y) xs ys" by (rule for_each_all2)
  from y obtain n where "n < length ys" "ys ! n = y" by (auto simp: in_set_conv_nth)
  with a have "f (xs ! n) = Inr y" "n < length xs" by (auto simp: list_all2_conv_all_nth)
  then show ?thesis by (metis nth_mem)
qed

lemma chapter_url_first:
  "chapter_url (make_chapter cf (i, sect)) = ''sec_00'' \<longleftrightarrow> i = 0"
proof -
  have "chapter_url (make_chapter cf (i, sect)) = ''sec_'' @ format_02 i"
    by (simp add: make_chapter_def)
  moreover have "(''sec_'' @ format_02 i = ''sec_'' @ ''00'') = (format_02 i = ''00'')"
    by (rule same_append_eq)
  ultimately show ?thesis by (simp add: format_02_zero)
qed

lemma add_sequential_attrib:
  "add_sequential e ch sq = Inr s \<Longrightarrow> tag s = ''sequential'' \<and> attrib s = sequential_attrib ch sq"
  by (auto simp: add_sequential_def split: sum.splits)

lemma add_chapter_parts:
  "add_chapter e ch = Inr x \<Longrightarrow>
   tag x = ''chapter'' \<and> map_of (attrib x) ''url_name'' = Some (chapter_url ch)
   \<and> for_each (add_sequential e ch) (sequentials ch) = Inr (children x)"
  by (auto simp: add_chapter_def split: sum.splits option.splits)

lemma make_chapters_member:
  "c \<in> set (make_chapters cf parse_all syl) \<Longrightarrow>
   \<exists>i. i < length syl \<and> c = make_chapter cf (i, syl ! i) \<and> (parse_all \<or> fst (snd (syl ! i)) \<noteq> None)"
  by (auto simp: make_chapters_def in_set_enumerate_eq)

lemma parse_syllabus_InrD:
  assumes "parse_syllabus e f cf pa = Inr chs" and "split_into_units e f True = Inr (syll # others)"
  shows "\<exists>syl. parse_lines e [] (split_on newline (source (cells syll ! 1))) = Inr syl
              \<and> chs = make_chapters cf pa syl"
  using assms by (auto simp: parse_syllabus_def split: if_splits sum.splits)

lemma build_course_InrD:
  assumes "build_course e cf = Inr course"
  shows "\<exists>chs skel xs. parse_syllabus e (os_path_join cf ''syllabus.ipynb'') cf False = Inr chs
     \<and> course_xml e = Inr skel \<and> for_each (add_chapter e) chs = Inr xs
     \<and> course = Element (tag skel) (attrib skel) (children skel @ xs)"
  using assms by (auto simp: build_course_def split: sum.splits)

text \<open>
  C3. In the element that \<open>add_chapter\<close> builds for a chapter of the syllabus, every child
  is a sequential; its \<open>graded\<close> attribute is \<open>false\<close> if the chapter's identifier is
  \<open>sec_00\<close> (which is the case exactly for the section at index 0) and \<open>true\<close> otherwise;
  its \<open>format\<close> attribute is \<open>Research\<close> exactly when its display name is \<open>Assignments\<close>,
  \<open>Self-check\<close> for the other sequentials outside \<open>sec_00\<close>, and absent otherwise.
\<close>

theorem sequential_graded_format:
  assumes "ch = make_chapter cf (i, sect)"
    and "add_chapter e ch = Inr chapter_xml"
    and "s \<in> set (children chapter_xml)"
  shows "map_of (attrib chapter_xml) ''url_name'' = Some (chapter_url ch)
     \<and> (chapter_url ch = ''sec_00'' \<longleftrightarrow> i = 0)
     \<and> tag s = ''sequential''
     \<and> map_of (attrib s) ''graded'' = Some (if chapter_url ch = ''sec_00'' then ''false'' else ''true'')
     \<and> map_of (attrib s) ''format'' =
         (if map_of (attrib s) ''display_name'' = Some ''Assignments'' then Some ''Research''
          else if chapter_url ch = ''sec_00'' then None else Some ''Self-check'')"
proof -
  from add_chapter_parts[OF assms(2)]
  have u: "map_of (attrib chapter_xml) ''url_name'' = Some (chapter_url ch)"
    and f: "for_each (add_sequential e ch) (sequentials ch) = Inr (children chapter_xml)"
    by simp_all
  from for_each_member[OF f assms(3)] obtain sq where "add_sequential e ch sq = Inr s" by blast
  from add_sequential_attrib[OF this]
  have t: "tag s = ''sequential''" and a: "attrib s = sequential_attrib ch sq" by simp_all
  have g: "map_of (attrib s) ''graded'' = Some (if chapter_url ch = ''sec_00'' then ''false'' else ''true'')"
    unfolding a by (simp add: sequential_attrib_def)
  have d: "map_of (attrib s) ''display_name'' = Some (sequential_name sq)"
    unfolding a by (simp add: sequential_attrib_def)
  have fm: "map_of (attrib s) ''format'' =
         (if sequential_name sq = ''Assignments'' then Some ''Research''
          else if chapter_url ch = ''sec_00'' then None else Some ''Self-check'')"
    unfolding a by (simp add: sequential_attrib_def)
  from chapter_url_first[of cf i sect] assms(1)
  have "chapter_url ch = ''sec_00'' \<longleftrightarrow> i = 0" by simp
  with u t g fm d show ?thesis by simp
qed


theorem sequential_graded_format_witness:
  "map_of (attrib (children week1_chapter_xml ! 1)) ''graded'' = Some ''true''
   \<and> map_of (attrib (children week1_chapter_xml ! 1)) ''format'' = Some ''Research''
   \<and> map_of (attrib (children week1_chapter_xml ! 0)) ''format'' = Some ''Self-check''"
proof -
  have h1: "week1_chapter = make_chapter ''c'' (1, (''Week 1'', Some ''3 Sep 2018'',
              [(''Topology'', ''w1/topo.ipynb''), (''Assignments'', ''w1/a.ipynb'')]))"
    by (rule week1_chapter_def)
  have h2: "add_chapter (example_env week1_notebooks) week1_chapter = Inr week1_chapter_xml"
    by code_simp
  have m0: "children week1_chapter_xml ! 0 \<in> set (children week1_chapter_xml)"
    and m1: "children week1_chapter_xml ! 1 \<in> set (children week1_chapter_xml)"
    by (simp_all add: week1_chapter_xml_def)
  have u: "chapter_url week1_chapter \<noteq> ''sec_00''" by code_simp
  have d0: "map_of (attrib (children week1_chapter_xml ! 0)) ''display_name'' \<noteq> Some ''Assignments''"
    and d1: "map_of (attrib (children week1_chapter_xml ! 1)) ''display_name'' = Some ''Assignments''"
    by (simp_all add: week1_chapter_xml_def)
  from sequential_graded_format[OF h1 h2 m0] sequential_graded_format[OF h1 h2 m1] u d0 d1
  show ?thesis by simp
qed

text \<open>
  C9. If the first section of the syllabus has no release date, then in the course that
  the default-mode compilation builds no added chapter has the identifier \<open>sec_00\<close> and
  every sequential of every added chapter has \<open>graded\<close> set to \<open>true\<close>.
\<close>

theorem undated_first_section_all_graded:
  assumes "build_course e cf = Inr course"
    and "course_xml e = Inr skeleton"
    and "split_into_units e (os_path_join cf ''syllabus.ipynb'') True = Inr (syll # others)"
    and "sections_of (split_on newline (source (cells syll ! 1))) = nm # names"
    and "release_dates e nm = None"
  shows "\<forall>c\<in>set (drop (length (children skeleton)) (children course)).
           tag c = ''chapter'' \<and> map_of (attrib c) ''url_name'' \<noteq> Some ''sec_00''
           \<and> (\<forall>s\<in>set (children c). tag s = ''sequential'' \<and> map_of (attrib s) ''graded'' = Some ''true'')"
proof -
  from build_course_InrD[OF assms(1)] assms(2) obtain chs xs
    where p: "parse_syllabus e (os_path_join cf ''syllabus.ipynb'') cf False = Inr chs"
      and fe: "for_each (add_chapter e) chs = Inr xs"
      and c: "course = Element (tag skeleton) (attrib skeleton) (children skeleton @ xs)"
    by auto
  from parse_syllabus_InrD[OF p assms(3)] obtain syl
    where pl: "parse_lines e [] (split_on newline (source (cells syll ! 1))) = Inr syl"
      and chs: "chs = make_chapters cf False syl" by blast
  from parse_lines_names[OF pl] assms(4) have names: "map fst syl = nm # names" by simp
  then obtain s0 rest where syl: "syl = s0 # rest" and s0: "fst s0 = nm" by (cases syl) auto
  have inv: "\<forall>x\<in>set syl. fst (snd x) = release_dates e (fst x)"
    by (rule parse_lines_dates[OF _ pl]) simp
  with syl s0 assms(5) have d0: "fst (snd (syl ! 0)) = None" by simp
  have urls: "chapter_url ch \<noteq> ''sec_00''" if "ch \<in> set chs" for ch
  proof -
    from that chs make_chapters_member[of ch cf False syl] obtain i
      where "ch = make_chapter cf (i, syl ! i)" and "fst (snd (syl ! i)) \<noteq> None" by auto
    with d0 have "i \<noteq> 0" and "ch = make_chapter cf (i, syl ! i)" by (auto intro: ccontr)
    then show ?thesis by (simp add: chapter_url_first)
  qed
  have "tag x = ''chapter'' \<and> map_of (attrib x) ''url_name'' \<noteq> Some ''sec_00''
       \<and> (\<forall>s\<in>set (children x). tag s = ''sequential'' \<and> map_of (attrib s) ''graded'' = Some ''true'')"
    if "x \<in> set xs" for x
  proof -
    from for_each_member[OF fe that] obtain ch where ch: "ch \<in> set chs" and a: "add_chapter e ch = Inr x"
      by blast
    from add_chapter_parts[OF a]
    have t: "tag x = ''chapter''" and u: "map_of (attrib x) ''url_name'' = Some (chapter_url ch)"
      and f: "for_each (add_sequential e ch) (sequentials ch) = Inr (children x)"
      by simp_all
    have "tag s = ''sequential'' \<and> map_of (attrib s) ''graded'' = Some ''true''"
      if "s \<in> set (children x)" for s
    proof -
      from for_each_member[OF f that] obtain sq where "add_sequential e ch sq = Inr s" by blast
      from add_sequential_attrib[OF this] urls[OF ch] show ?thesis
        by (simp add: sequential_attrib_def)
    qed
    with t u urls[OF ch] show ?thesis by simp
  qed
  then show ?thesis unfolding c by simp
qed

theorem undated_first_section_all_graded_witness:
  "tag week1_chapter_xml = ''chapter''
   \<and> map_of (attrib (children week1_chapter_xml ! 0)) ''graded'' = Some ''true''
   \<and> map_of (attrib (children week1_chapter_xml ! 1)) ''graded'' = Some ''true''"
proof -
  let ?e = "example_env week1_notebooks"
  let ?src = "unlines [''* **Introduction**'', ''  * [Welcome](w0/intro.ipynb)'',
         ''* **Week 1**'', ''  * [Topology](w1/topo.ipynb)'', ''  * [Assignments](w1/a.ipynb)'']"
  let ?syll = "\<lparr>unit_name = ''Syllabus'', cells = [markdown_node ''# Syllabus'', markdown_node ?src]\<rparr>"
  have h1: "build_course ?e ''c'' = Inr (Element ''course'' [] [week1_chapter_xml])"
    by code_simp
  have h2: "course_xml ?e = Inr (Element ''course'' [] [])"
    by (simp add: example_env_def)
  have h3: "split_into_units ?e (os_path_join ''c'' ''syllabus.ipynb'') True = Inr (?syll # [])"
    by code_simp
  have h4: "sections_of (split_on newline (source (cells ?syll ! 1))) = ''Introduction'' # [''Week 1'']"
    by code_simp
  have h5: "release_dates ?e ''Introduction'' = None"
    by (simp add: example_env_def)
  have m0: "children week1_chapter_xml ! 0 \<in> set (children week1_chapter_xml)"
    and m1: "children week1_chapter_xml ! 1 \<in> set (children week1_chapter_xml)"
    by (simp_all add: week1_chapter_xml_def)
  from undated_first_section_all_graded[OF h1 h2 h3 h4 h5]
  have "tag week1_chapter_xml = ''chapter''
      \<and> (\<forall>s\<in>set (children week1_chapter_xml). map_of (attrib s) ''graded'' = Some ''true'')"
    by simp
  with m0 m1 show ?thesis by blast
qed

subsection \<open>Cell classifier\<close>

lemma convert_cells_append:
  "convert_cells e st (xs @ ys) =
     (case convert_cells e st xs of Inl err \<Rightarrow> Inl err | Inr st' \<Rightarrow> convert_cells e st' ys)"
proof (induction xs arbitrary: st)
  case Nil
  show ?case by simp
next
  case (Cons x xs)
  obtain uo nc where st: "st = (uo, nc)" by (cases st)
  show ?case unfolding st
    by (simp add: Cons.IH split: option.splits sum.splits)
qed

lemma convert_cells_skip:
  "cell_type c \<noteq> Markdown \<Longrightarrow> outputs c = None \<Longrightarrow>
   convert_cells e st (c # rest) = convert_cells e st rest"
  by (cases st) simp

lemma convert_cells_multiple:
  "cell_type c \<noteq> Markdown \<Longrightarrow> outputs c = Some outs \<Longrightarrow> 1 < length (xml_components outs) \<Longrightarrow>
   convert_cells e st (c # rest) = Inl (RuntimeError ''More than 1 xml component in a cell.'')"
  by (cases st) auto

lemma convert_unit_cells_error:
  "convert_cells e ([], []) (cells u) = Inl err \<Longrightarrow> convert_unit e u d = Inl err"
  by (simp add: convert_unit_def)

lemma convert_unit_multiple:
  assumes "cell_type c \<noteq> Markdown" "outputs c = Some outs" "1 < length (xml_components outs)"
    and "cells u = pre @ c # post"
  shows "\<exists>err. convert_unit e u d = Inl err"
    and "convert_cells e ([], []) pre = Inr st \<Longrightarrow>
         convert_unit e u d = Inl (RuntimeError ''More than 1 xml component in a cell.'')"
proof -
  have step: "convert_cells e s (c # post) = Inl (RuntimeError ''More than 1 xml component in a cell.'')" for s
    by (rule convert_cells_multiple[OF assms(1-3)])
  have "\<exists>err. convert_cells e ([], []) (cells u) = Inl err"
    unfolding assms(4) convert_cells_append by (simp add: step split: sum.splits)
  then show "\<exists>err. convert_unit e u d = Inl err" by (auto dest: convert_unit_cells_error)
  assume "convert_cells e ([], []) pre = Inr st"
  then have "convert_cells e ([], []) (cells u) = Inl (RuntimeError ''More than 1 xml component in a cell.'')"
    unfolding assms(4) convert_cells_append by (simp add: step)
  then show "convert_unit e u d = Inl (RuntimeError ''More than 1 xml component in a cell.'')"
    by (rule convert_unit_cells_error)
qed

lemma for_each_Inr_all:
  "for_each f xs = Inr ys \<Longrightarrow> x \<in> set xs \<Longrightarrow> \<exists>y. f x = Inr y"
proof -
  assume r: "for_each f xs = Inr ys" and x: "x \<in> set xs"
  from r have a: "list_all2 (\<lambda>x y. f x = Inr y) xs ys" by (rule for_each_all2)
  from x obtain n where "n < length xs" "xs ! n = x" by (auto simp: in_set_conv_nth)
  with a show ?thesis by (auto simp: list_all2_conv_all_nth)
qed

lemma for_each_fails:
  "x \<in> set xs \<Longrightarrow> f x = Inl err \<Longrightarrow> \<exists>err'. for_each f xs = Inl err'"
proof -
  assume x: "x \<in> set xs" and f: "f x = Inl err"
  show ?thesis
  proof (cases "for_each f xs")
    case (Inl a)
    then show ?thesis by blast
  next
    case (Inr ys)
    from for_each_Inr_all[OF Inr x] f show ?thesis by simp
  qed
qed

lemma add_vertical_fails:
  "convert_unit e u (sequential_date sq) = Inl err \<Longrightarrow> add_vertical e sq (i, u) = Inl err"
  by (simp add: add_vertical_def)

lemma add_sequential_fails:
  assumes "split_into_units e (source_notebook sq) False = Inr units"
    and "u \<in> set units" and "convert_unit e u (sequential_date sq) = Inl err"
  shows "\<exists>err'. add_sequential e ch sq = Inl err'"
proof -
  from assms(2) obtain i where "i < length units" "units ! i = u"
    by (auto simp: in_set_conv_nth)
  then have "(i, u) \<in> set (enumerate 0 units)" by (simp add: in_set_enumerate_eq)
  from for_each_fails[of "(i, u)" "enumerate 0 units" "add_vertical e sq", OF this add_vertical_fails[OF assms(3)]]
  obtain err' where "for_each (add_vertical e sq) (enumerate 0 units) = Inl err'" by blast
  with assms(1) show ?thesis by (simp add: add_sequential_def)
qed

lemma add_chapter_fails:
  assumes "sq \<in> set (sequentials ch)" and "add_sequential e ch sq = Inl err"
  shows "\<exists>err'. add_chapter e ch = Inl err'"
proof -
  from for_each_fails[of sq "sequentials ch" "add_sequential e ch", OF assms] obtain err'
    where "for_each (add_sequential e ch) (sequentials ch) = Inl err'" by blast
  then show ?thesis by (auto simp: add_chapter_def split: sum.splits option.splits)
qed

lemma build_course_fails:
  assumes "parse_syllabus e (os_path_join cf ''syllabus.ipynb'') cf False = Inr chs"
    and "ch \<in> set chs" and "add_chapter e ch = Inl err"
  shows "\<exists>err'. build_course e cf = Inl err'"
proof -
  from for_each_fails[of ch chs "add_chapter e", OF assms(2,3)] obtain err'
    where "for_each (add_chapter e) chs = Inl err'" by blast
  with assms(1) show ?thesis by (auto simp: build_course_def split: sum.splits)
qed

text \<open>
  C1. A cell that is not markdown and has more than one output with a payload under the
  media type \<open>application/vnd.edx.olxml+xml\<close> makes \<open>convert_unit\<close> raise: the exception
  is the \<open>RuntimeError\<close> of line 261 whenever the loop reaches the cell, and if the unit
  belongs to the notebook of a subsection of a compiled chapter, \<open>converter\<close> raises too,
  so that no course definition and no archive is written.
\<close>

theorem multiple_components_abort:
  assumes "cell_type c \<noteq> Markdown" and "outputs c = Some outs" and "1 < length (xml_components outs)"
    and "cells u = pre @ c # post"
    and "parse_syllabus e (os_path_join cf ''syllabus.ipynb'') cf False = Inr chs"
    and "ch \<in> set chs" and "sq \<in> set (sequentials ch)"
    and "split_into_units e (source_notebook sq) False = Inr units" and "u \<in> set units"
  shows "(\<exists>err. convert_unit e u (sequential_date sq) = Inl err)
       \<and> (\<forall>st. convert_cells e ([], []) pre = Inr st \<longrightarrow>
             convert_unit e u (sequential_date sq)
               = Inl (RuntimeError ''More than 1 xml component in a cell.''))
       \<and> (\<exists>err. converter e mooc_folder (Some cf) = Inl err)"
proof -
  from convert_unit_multiple(1)[OF assms(1-4)]
  obtain err where u: "convert_unit e u (sequential_date sq) = Inl err" by blast
  from add_sequential_fails[OF assms(8,9) u] obtain e1 where "add_sequential e ch sq = Inl e1" by blast
  from add_chapter_fails[OF assms(7) this] obtain e2 where "add_chapter e ch = Inl e2" by blast
  from build_course_fails[OF assms(5,6) this] obtain e3 where "build_course e cf = Inl e3" by blast
  then have "converter e mooc_folder (Some cf) = Inl e3" by (simp add: converter_def)
  with u convert_unit_multiple(2)[OF assms(1-4)] show ?thesis by blast
qed

theorem multiple_components_abort_witness:
  "convert_unit (example_env two_component_notebooks)
      \<lparr>unit_name = ''Bands'', cells = [markdown_node [], two_component_cell]\<rparr> (Some ''3 Sep 2018'')
     = Inl (RuntimeError ''More than 1 xml component in a cell.'')
   \<and> (\<exists>err. converter (example_env two_component_notebooks) ''m'' (Some ''c'') = Inl err)"
proof -
  let ?e = "example_env two_component_notebooks"
  let ?u = "\<lparr>unit_name = ''Bands'', cells = [markdown_node [], two_component_cell]\<rparr>"
  let ?sq = "sequentials week1_chapter ! 0"
  have h1: "cell_type two_component_cell \<noteq> Markdown"
    and h2: "outputs two_component_cell
       = Some [\<lparr>data = Some [(olxml, ''video'')]\<rparr>,
               \<lparr>data = Some [(''text/plain'', ''x''), (olxml, ''problem'')]\<rparr>]"
    by (simp_all add: two_component_cell_def)
  have h3: "1 < length (xml_components [\<lparr>data = Some [(olxml, ''video'')]\<rparr>,
               \<lparr>data = Some [(''text/plain'', ''x''), (olxml, ''problem'')]\<rparr>])"
    by code_simp
  have h4: "cells ?u = [markdown_node []] @ two_component_cell # []" by simp
  have h5: "parse_syllabus ?e (os_path_join ''c'' ''syllabus.ipynb'') ''c'' False = Inr [week1_chapter]"
    by code_simp
  have h6: "week1_chapter \<in> set [week1_chapter]" by simp
  have h7: "?sq \<in> set (sequentials week1_chapter)" by code_simp
  have h8: "split_into_units ?e (source_notebook ?sq) False = Inr [?u]" by code_simp
  have h9: "?u \<in> set [?u]" by simp
  have d: "sequential_date ?sq = Some ''3 Sep 2018''" by code_simp
  have pre: "convert_cells ?e ([], []) [markdown_node []] = Inr ([], [markdown_node []])"
    by (simp add: markdown_node_def)
  from multiple_components_abort[OF h1 h2 h3 h4 h5 h6 h7 h8 h9, of "''m''"] pre d
  show ?thesis by simp
qed

text \<open>
  The guard of line 244 is on the attribute: a cell that is not markdown and has no
  \<open>outputs\<close> attribute is skipped, and the unit converts as the unit without the cell does.
  A cell that is not markdown and has an empty list of outputs passes the guard and joins
  the batch of line 257.
\<close>

lemma cell_without_outputs_skipped:
  assumes "cell_type c \<noteq> Markdown" and "outputs c = None"
  shows "convert_unit e \<lparr>unit_name = n, cells = pre @ c # post\<rparr> d
       = convert_unit e \<lparr>unit_name = n, cells = pre @ post\<rparr> d"
  by (simp add: convert_unit_def convert_cells_append convert_cells_skip[OF assms]
           cong: sum.case_cong)

lemma empty_outputs_joins_batch:
  "cell_type c \<noteq> Markdown \<Longrightarrow> outputs c = Some [] \<Longrightarrow>
   convert_cells e (unit_output, normal_cells) (c # rest)
     = convert_cells e (unit_output, normal_cells @ [c]) rest"
  by (simp add: xml_components_def)

text \<open>
  C6. The code does not skip a code cell that carries no recorded outputs, although the
  comment of line 243 names the guard \<^verbatim>\<open>Empty code cell\<close>: the unit that consists of one code
  cell with an empty list of outputs yields one HTML artifact, rendered from that cell.
\<close>

theorem empty_outputs_cell_rendered:
  "convert_unit (example_env [])
     \<lparr>unit_name = ''U'', cells = [\<lparr>cell_type = Code, source = ''x = 1'', metadata = [], outputs = Some []\<rparr>]\<rparr> None
   = Inr [Html ''x = 1'']"
  by code_simp

lemma match_equation_no_backslash: "backslash \<noteq> c \<Longrightarrow> match_equation kw (c # cs) = None"
  by (auto simp: match_equation_def startswith_def)

lemma sub_equation_no_backslash: "backslash \<notin> set s \<Longrightarrow> sub_equation kw repl s = s"
  by (induction s) (simp_all add: match_equation_no_backslash)

lemma rewrite_equations_no_backslash: "backslash \<notin> set s \<Longrightarrow> rewrite_equations s = s"
  by (simp add: rewrite_equations_def sub_equation_no_backslash)

lemma foldl_rewrite_at:
  "distinct as \<Longrightarrow> \<forall>a\<in>set as. a < length heap \<Longrightarrow>
   length (foldl rewrite_at heap as) = length heap
   \<and> (\<forall>b<length heap. foldl rewrite_at heap as ! b
          = (if b \<in> set as then rewrite_cell (heap ! b) else heap ! b))"
proof (induction as arbitrary: heap)
  case Nil
  show ?case by simp
next
  case (Cons a as)
  let ?h = "rewrite_at heap a"
  have l: "length ?h = length heap" by (simp add: rewrite_at_def)
  from Cons.prems have d: "distinct as" and b: "\<forall>x\<in>set as. x < length ?h" and na: "a \<notin> set as"
    and al: "a < length heap"
    by (simp_all add: l)
  from Cons.IH[OF d b] l
  have len: "length (foldl rewrite_at ?h as) = length heap"
    and nth: "\<forall>b<length heap. foldl rewrite_at ?h as ! b
          = (if b \<in> set as then rewrite_cell (?h ! b) else ?h ! b)"
    by simp_all
  have "foldl rewrite_at ?h as ! b = (if b \<in> set (a # as) then rewrite_cell (heap ! b) else heap ! b)"
    if "b < length heap" for b
    using nth that na al by (auto simp: rewrite_at_def nth_list_update)
  with len show ?case by simp
qed

lemma heap_inv_pending: "heap_inv c0 heap pend \<Longrightarrow> a \<in> set pend \<Longrightarrow> heap ! a = c0 ! a"
  by (simp add: heap_inv_def)

lemma heap_inv_reorder: "heap_inv c0 heap pend \<Longrightarrow> set pend' = set pend \<Longrightarrow> distinct pend' \<Longrightarrow> heap_inv c0 heap pend'"
  by (simp add: heap_inv_def)

lemma rewrite_cell_other: "cell_type c \<noteq> Markdown \<Longrightarrow> rewrite_cell c = c"
  by (simp add: rewrite_cell_def)

lemma heap_inv_drop:
  assumes "heap_inv c0 heap (p1 @ a # p2)" and "cell_type (c0 ! a) \<noteq> Markdown"
  shows "heap_inv c0 heap (p1 @ p2)"
  using assms rewrite_cell_other[OF assms(2)]
  by (auto simp: heap_inv_def)

lemma heap_inv_flush:
  assumes "heap_inv c0 heap (nc @ as)"
  shows "heap_inv c0 (fst (convert_normal_cells_heap e heap nc)) as"
    and "snd (convert_normal_cells_heap e heap nc) = snd (convert_normal_cells e (map (\<lambda>a. c0 ! a) nc))"
proof -
  let ?h = "foldl rewrite_at heap nc"
  from assms have d: "distinct nc" and b: "\<forall>a\<in>set nc. a < length heap"
    and len: "length heap = length c0"
    by (auto simp: heap_inv_def)
  from foldl_rewrite_at[OF d b] len
  have l: "length ?h = length c0"
    and n: "\<forall>b<length c0. ?h ! b = (if b \<in> set nc then rewrite_cell (heap ! b) else heap ! b)"
    by simp_all
  have f: "fst (convert_normal_cells_heap e heap nc) = ?h"
    by (simp add: convert_normal_cells_heap_def Let_def)
  from assms l n show "heap_inv c0 (fst (convert_normal_cells_heap e heap nc)) as"
    unfolding f by (auto simp: heap_inv_def)
  have "\<forall>a\<in>set nc. ?h ! a = rewrite_cell (c0 ! a)"
    using assms n by (auto simp: heap_inv_def)
  then have m: "map (\<lambda>a. ?h ! a) nc = map (\<lambda>a. rewrite_cell (c0 ! a)) nc"
    by (intro map_cong) simp_all
  have "snd (convert_normal_cells_heap e heap nc) = export_unit_to_html e (map (\<lambda>a. ?h ! a) nc)"
    by (simp add: convert_normal_cells_heap_def Let_def)
  also have "\<dots> = export_unit_to_html e (map (\<lambda>a. rewrite_cell (c0 ! a)) nc)"
    by (simp only: m)
  also have "\<dots> = snd (convert_normal_cells e (map (\<lambda>a. c0 ! a) nc))"
    by (simp add: convert_normal_cells_def Let_def comp_def)
  finally show "snd (convert_normal_cells_heap e heap nc) = snd (convert_normal_cells e (map (\<lambda>a. c0 ! a) nc))" .
qed

lemma convert_cells_heap_sim:
  "heap_inv c0 heap (nc @ as) \<Longrightarrow> heap_sim e c0 uo nc as (convert_cells_heap e (heap, uo, nc) as)"
proof (induction as arbitrary: heap uo nc)
  case Nil
  then show ?case by (simp add: heap_sim_def)
next
  case (Cons a as)
  let ?f = "\<lambda>a. c0 ! a"
  have ha: "heap ! a = c0 ! a" by (rule heap_inv_pending[OF Cons.prems]) simp
  have keep: "heap_inv c0 heap ((nc @ [a]) @ as)" using Cons.prems by simp
  have stay: "heap_sim e c0 uo nc (a # as) (heap, Inl err)"
    if "convert_cells e (uo, map ?f nc) (map ?f (a # as)) = Inl err" for err
    using that Cons.prems by (auto simp: heap_sim_def)
  show ?case
  proof (cases "cell_type (c0 ! a) = Markdown")
    case True
    have v: "convert_cells e (uo, map ?f nc) (map ?f (a # as))
           = convert_cells e (uo, map ?f (nc @ [a])) (map ?f as)" using True by simp
    have h: "convert_cells_heap e (heap, uo, nc) (a # as)
           = convert_cells_heap e (heap, uo, nc @ [a]) as" using True ha by simp
    from Cons.IH[OF keep, of uo] show ?thesis unfolding heap_sim_def v h .
  next
    case nm: False
    have drop: "heap_inv c0 heap (nc @ as)" by (rule heap_inv_drop[OF Cons.prems nm])
    show ?thesis
    proof (cases "outputs (c0 ! a)")
      case None
      have v: "convert_cells e (uo, map ?f nc) (map ?f (a # as))
             = convert_cells e (uo, map ?f nc) (map ?f as)" using nm None by simp
      have h: "convert_cells_heap e (heap, uo, nc) (a # as)
             = convert_cells_heap e (heap, uo, nc) as" using nm None ha by simp
      from Cons.IH[OF drop, of uo] show ?thesis unfolding heap_sim_def v h .
    next
      case (Some outs)
      show ?thesis
      proof (cases "xml_components outs = []")
        case True
        have v: "convert_cells e (uo, map ?f nc) (map ?f (a # as))
               = convert_cells e (uo, map ?f (nc @ [a])) (map ?f as)" using nm Some True by simp
        have h: "convert_cells_heap e (heap, uo, nc) (a # as)
               = convert_cells_heap e (heap, uo, nc @ [a]) as" using nm Some True ha by simp
        from Cons.IH[OF keep, of uo] show ?thesis unfolding heap_sim_def v h .
      next
        case ne: False
        show ?thesis
        proof (cases "1 < length (xml_components outs)")
          case True
          have v: "convert_cells e (uo, map ?f nc) (map ?f (a # as))
                 = Inl (RuntimeError ''More than 1 xml component in a cell.'')"
            using nm Some ne True by simp
          have h: "convert_cells_heap e (heap, uo, nc) (a # as)
                 = (heap, Inl (RuntimeError ''More than 1 xml component in a cell.''))"
            using nm Some ne True ha by simp
          from stay[OF v] show ?thesis unfolding h .
        next
          case one: False
          show ?thesis
          proof (cases "fromstring e (hd (xml_components outs))")
            case (Inl err)
            have v: "convert_cells e (uo, map ?f nc) (map ?f (a # as)) = Inl err"
              using nm Some ne one Inl by simp
            have h: "convert_cells_heap e (heap, uo, nc) (a # as) = (heap, Inl err)"
              using nm Some ne one Inl ha by simp
            from stay[OF v] show ?thesis unfolding h .
          next
            case (Inr x)
            show ?thesis
            proof (cases "nc = []")
              case True
              have v: "convert_cells e (uo, map ?f nc) (map ?f (a # as))
                     = convert_cells e (uo @ [Component x], map ?f []) (map ?f as)"
                using nm Some ne one Inr True by simp
              have h: "convert_cells_heap e (heap, uo, nc) (a # as)
                     = convert_cells_heap e (heap, uo @ [Component x], []) as"
                using nm Some ne one Inr True ha by simp
              from drop True have "heap_inv c0 heap ([] @ as)" by simp
              from Cons.IH[OF this, of "uo @ [Component x]"] show ?thesis unfolding heap_sim_def v h .
            next
              case False
              let ?r = "convert_normal_cells_heap e heap nc"
              from heap_inv_flush[OF Cons.prems, of e]
              have fi: "heap_inv c0 (fst ?r) (a # as)"
                and fs: "snd ?r = snd (convert_normal_cells e (map ?f nc))"
                by simp_all
              from fi have fi': "heap_inv c0 (fst ?r) ([] @ a # as)" by simp
              have fd: "heap_inv c0 (fst ?r) ([] @ as)" using heap_inv_drop[OF fi' nm] by simp
              have ne': "map ?f nc \<noteq> []" using False by simp
              show ?thesis
              proof (cases "snd ?r")
                case (Inl err)
                with fs have vs: "snd (convert_normal_cells e (map ?f nc)) = Inl err" by simp
                have v: "convert_cells e (uo, map ?f nc) (map ?f (a # as)) = Inl err"
                  using nm Some ne one Inr ne' vs by simp
                have h: "convert_cells_heap e (heap, uo, nc) (a # as) = (fst ?r, Inl err)"
                  using nm Some ne one Inr False Inl ha by (cases ?r) simp
                from fi show ?thesis unfolding h heap_sim_def v by auto
              next
                case hh: (Inr html)
                with fs have vs: "snd (convert_normal_cells e (map ?f nc)) = Inr html" by simp
                have v: "convert_cells e (uo, map ?f nc) (map ?f (a # as))
                     = convert_cells e (uo @ [Html html, Component x], map ?f []) (map ?f as)"
                  using nm Some ne one Inr ne' vs by simp
                have h: "convert_cells_heap e (heap, uo, nc) (a # as)
                     = convert_cells_heap e (fst ?r, uo @ [Html html, Component x], []) as"
                  using nm Some ne one Inr False hh ha by (cases ?r) simp
                from Cons.IH[OF fd, of "uo @ [Html html, Component x]"]
                show ?thesis unfolding heap_sim_def v h .
              qed
            qed
          qed
        qed
      qed
    qed
  qed
qed

lemma heap_inv_initial: "heap_inv c0 c0 ([] @ [0..<length c0])"
  by (simp add: heap_inv_def)

lemma convert_unit_heap_sim:
  "snd (convert_unit_heap e u d) = convert_unit e u d
   \<and> (\<exists>pend. heap_inv (cells u) (fst (convert_unit_heap e u d)) pend
         \<and> ((\<exists>outs. convert_unit e u d = Inr outs) \<longrightarrow> pend = []))"
proof -
  let ?c0 = "cells u"
  let ?f = "\<lambda>a. ?c0 ! a"
  let ?R = "convert_cells_heap e (?c0, [], []) [0..<length ?c0]"
  have m: "map ?f [0..<length ?c0] = ?c0" by (rule map_nth)
  from convert_cells_heap_sim[OF heap_inv_initial[of ?c0], where e = e and uo = "[]"]
  have v: "convert_cells e ([], []) ?c0
        = map_sum id (\<lambda>st. (fst st, map ?f (snd st))) (snd ?R)"
    and i: "\<exists>pend. heap_inv ?c0 (fst ?R) pend \<and> (\<forall>st. snd ?R = Inr st \<longrightarrow> pend = snd st)"
    unfolding heap_sim_def m by simp_all
  obtain heap r where R: "?R = (heap, r)" by (cases ?R)
  show ?thesis
  proof (cases r)
    case (Inl err)
    with R v i show ?thesis
      by (auto simp: convert_unit_heap_def convert_unit_def)
  next
    case (Inr st)
    obtain uo nc where st: "st = (uo, nc)" by (cases st)
    from R Inr st v have cv: "convert_cells e ([], []) ?c0 = Inr (uo, map ?f nc)" by simp
    from R Inr st i have hi: "heap_inv ?c0 heap nc" by auto
    show ?thesis
    proof (cases "nc = []")
      case True
      with R Inr st cv hi show ?thesis
        by (auto simp: convert_unit_heap_def convert_unit_def)
    next
      case False
      let ?r = "convert_normal_cells_heap e heap nc"
      from hi have "heap_inv ?c0 heap (nc @ [])" by simp
      from heap_inv_flush[OF this, of e]
      have fi: "heap_inv ?c0 (fst ?r) []"
        and fs: "snd ?r = snd (convert_normal_cells e (map ?f nc))"
        by simp_all
      have ne: "map ?f nc \<noteq> []" using False by simp
      have h: "convert_unit_heap e u d
             = (fst ?r, case snd ?r of Inl err \<Rightarrow> Inl err | Inr html \<Rightarrow> Inr (uo @ [Html html]))"
        using R Inr st False by (cases ?r; cases "snd ?r") (simp_all add: convert_unit_heap_def)
      have c: "convert_unit e u d
             = (case snd (convert_normal_cells e (map ?f nc)) of
                  Inl err \<Rightarrow> Inl err | Inr html \<Rightarrow> Inr (uo @ [Html html]))"
        using cv ne by (simp add: convert_unit_def)
      from fi show ?thesis unfolding h c fs by auto
    qed
  qed
qed

lemma heap_inv_cells:
  assumes "heap_inv c0 heap pend"
  shows "length heap = length c0"
    and "i < length c0 \<Longrightarrow> heap ! i = c0 ! i \<or> heap ! i = rewrite_cell (c0 ! i)"
    and "pend = [] \<Longrightarrow> heap = map rewrite_cell c0"
proof -
  from assms show "length heap = length c0" by (simp add: heap_inv_def)
  show "heap ! i = c0 ! i \<or> heap ! i = rewrite_cell (c0 ! i)" if "i < length c0"
    using assms that by (auto simp: heap_inv_def)
  show "heap = map rewrite_cell c0" if "pend = []"
    using assms that by (intro nth_equalityI) (auto simp: heap_inv_def)
qed

lemma rewrite_cell_frame:
  "cell_type (rewrite_cell c) = cell_type c \<and> metadata (rewrite_cell c) = metadata c
   \<and> outputs (rewrite_cell c) = outputs c
   \<and> (source (rewrite_cell c) = source c \<or> source (rewrite_cell c) = rewrite_equations (source c))
   \<and> (cell_type c \<noteq> Markdown \<or> backslash \<notin> set (source c) \<longrightarrow> rewrite_cell c = c)"
  by (auto simp: rewrite_cell_def rewrite_equations_no_backslash)

lemma append_to_last_cells:
  assumes "us \<noteq> []" and "\<forall>u\<in>set us. \<forall>c\<in>set (cells u). P c" and "P c"
  shows "\<forall>u\<in>set (append_to_last us c). \<forall>c\<in>set (cells u). P c"
proof -
  from assms(1) have "last us \<in> set us" by simp
  with assms(2,3) have "\<forall>x\<in>set (cells (last us) @ [c]). P x" by auto
  moreover have "\<forall>u\<in>set (butlast us). \<forall>c\<in>set (cells u). P c"
    using assms(2) by (meson in_set_butlastD)
  ultimately show ?thesis by (auto simp: append_to_last_def)
qed

lemma collect_units_cells:
  "collect_units ih us ps = Inr units \<Longrightarrow> \<forall>u\<in>set us. \<forall>c\<in>set (cells u). P c \<Longrightarrow>
   \<forall>c\<in>set ps. P c \<Longrightarrow> \<forall>u\<in>set units. \<forall>c\<in>set (cells u). P c"
proof (induction ps arbitrary: us)
  case Nil
  then show ?case by simp
next
  case (Cons p ps)
  from Cons.prems(3) have pp: "P p" and rest: "\<forall>c\<in>set ps. P c" by simp_all
  show ?case
  proof (cases "title_cell p")
    case True
    with Cons.prems(1) obtain nm where mt: "match_title (source p) = Some nm"
      by (cases "match_title (source p)") (auto simp: title_cell_def)
    let ?us' = "us @ [\<lparr>unit_name = nm, cells = []\<rparr>]"
    let ?next = "if ih then append_to_last ?us' p else ?us'"
    from Cons.prems(1) have c: "collect_units ih ?next ps = Inr units"
      unfolding collect_units_step_title[OF True mt] .
    have a: "\<forall>u\<in>set ?us'. \<forall>c\<in>set (cells u). P c" using Cons.prems(2) by auto
    have "\<forall>u\<in>set ?next. \<forall>c\<in>set (cells u). P c"
      using a append_to_last_cells[OF _ a pp] by auto
    from Cons.IH[OF c this rest] show ?thesis .
  next
    case False
    show ?thesis
    proof (cases "us = []")
      case True
      with Cons.prems(1) have c: "collect_units ih us ps = Inr units"
        unfolding collect_units_step_plain[OF False] by simp
      from Cons.IH[OF c Cons.prems(2) rest] show ?thesis .
    next
      case ne: False
      with Cons.prems(1) have c: "collect_units ih (append_to_last us p) ps = Inr units"
        unfolding collect_units_step_plain[OF False] by simp
      from Cons.IH[OF c append_to_last_cells[OF ne Cons.prems(2) pp] rest] show ?thesis .
    qed
  qed
qed

lemma split_cells_members:
  "c \<in> set (split_cells nb_cells) \<Longrightarrow>
   (cell_type c \<noteq> Markdown \<and> c \<in> set nb_cells) \<or> (\<exists>src. c = markdown_node src)"
  by (auto simp: split_cells_def dest: set_dropWhileD split: if_splits)

lemma split_into_units_blocks:
  assumes "nbformat_read e nb_name = Inr nb_cells"
    and "split_into_units e nb_name include_header = Inr units"
    and "un \<in> set units" and "c \<in> set (cells un)"
  shows "(cell_type c \<noteq> Markdown \<and> c \<in> set nb_cells) \<or> (\<exists>src. c = markdown_node src)"
proof -
  let ?P = "\<lambda>c. (cell_type c \<noteq> Markdown \<and> c \<in> set nb_cells) \<or> (\<exists>src. c = markdown_node src)"
  from assms(1,2) have c: "collect_units include_header [] (split_cells nb_cells) = Inr units"
    by (simp add: split_into_units_def)
  have "\<forall>u\<in>set units. \<forall>c\<in>set (cells u). ?P c"
    by (rule collect_units_cells[OF c]) (auto dest: split_cells_members)
  with assms(3,4) show ?thesis by blast
qed

text \<open>
  C8 as the code has it. \<open>convert_unit\<close> returns what \<open>convert_unit_heap\<close> returns, and
  leaves the cells of the unit as follows: their number, and the type, the metadata and
  the outputs of every cell are as before; the source of a cell is as before or its
  equation-delimiter rewrite; a cell that is not markdown, or whose source has no
  backslash, is unchanged; and when the call succeeds every cell is its rewrite, so every
  markdown cell has the rewritten source. The unit splitter changes no block: a block of a
  unit is a cell of the document that is not markdown, as it was read, or a markdown node
  newly made from a piece of text.
\<close>

theorem convert_unit_cells_frame:
  "snd (convert_unit_heap e u d) = convert_unit e u d
   \<and> length (fst (convert_unit_heap e u d)) = length (cells u)
   \<and> (\<forall>i<length (cells u).
         cell_type (fst (convert_unit_heap e u d) ! i) = cell_type (cells u ! i)
       \<and> metadata (fst (convert_unit_heap e u d) ! i) = metadata (cells u ! i)
       \<and> outputs (fst (convert_unit_heap e u d) ! i) = outputs (cells u ! i)
       \<and> (source (fst (convert_unit_heap e u d) ! i) = source (cells u ! i)
          \<or> source (fst (convert_unit_heap e u d) ! i) = rewrite_equations (source (cells u ! i)))
       \<and> (cell_type (cells u ! i) \<noteq> Markdown \<or> backslash \<notin> set (source (cells u ! i))
            \<longrightarrow> fst (convert_unit_heap e u d) ! i = cells u ! i))
   \<and> (\<forall>outs. convert_unit e u d = Inr outs \<longrightarrow>
         fst (convert_unit_heap e u d) = map rewrite_cell (cells u))
   \<and> (\<forall>nb_name include_header nb_cells units.
         nbformat_read e nb_name = Inr nb_cells \<longrightarrow>
         split_into_units e nb_name include_header = Inr units \<longrightarrow>
         (\<forall>un\<in>set units. \<forall>c\<in>set (cells un).
            (cell_type c \<noteq> Markdown \<and> c \<in> set nb_cells) \<or> (\<exists>src. c = markdown_node src)))"
proof -
  let ?h = "fst (convert_unit_heap e u d)"
  from convert_unit_heap_sim[of e u d] obtain pend
    where r: "snd (convert_unit_heap e u d) = convert_unit e u d"
      and hi: "heap_inv (cells u) ?h pend"
      and ok: "(\<exists>outs. convert_unit e u d = Inr outs) \<longrightarrow> pend = []"
    by blast
  have fr: "cell_type (?h ! i) = cell_type (cells u ! i)
       \<and> metadata (?h ! i) = metadata (cells u ! i)
       \<and> outputs (?h ! i) = outputs (cells u ! i)
       \<and> (source (?h ! i) = source (cells u ! i)
          \<or> source (?h ! i) = rewrite_equations (source (cells u ! i)))
       \<and> (cell_type (cells u ! i) \<noteq> Markdown \<or> backslash \<notin> set (source (cells u ! i))
            \<longrightarrow> ?h ! i = cells u ! i)"
    if "i < length (cells u)" for i
  proof -
    from heap_inv_cells(2)[OF hi that]
    show ?thesis
    proof
      assume "?h ! i = cells u ! i"
      then show ?thesis by simp
    next
      assume "?h ! i = rewrite_cell (cells u ! i)"
      with rewrite_cell_frame[of "cells u ! i"] show ?thesis by simp
    qed
  qed
  have s: "?h = map rewrite_cell (cells u)" if "convert_unit e u d = Inr outs" for outs
    using heap_inv_cells(3)[OF hi] ok that by blast
  from r heap_inv_cells(1)[OF hi] fr s split_into_units_blocks show ?thesis
    by (intro conjI allI impI ballI) blast+
qed

theorem convert_unit_cells_frame_witness:
  "fst (convert_unit_heap (example_env [(''nb'', [markdown_cell ''# A'', code_cell ''x''])])
         \<lparr>unit_name = ''U'', cells = [equation_cell, code_cell ''x'', markdown_cell ''plain'']\<rparr> None)
     = map rewrite_cell [equation_cell, code_cell ''x'', markdown_cell ''plain'']
   \<and> fst (convert_unit_heap (example_env [(''nb'', [markdown_cell ''# A'', code_cell ''x''])])
         \<lparr>unit_name = ''U'', cells = [equation_cell, code_cell ''x'', markdown_cell ''plain'']\<rparr> None) ! 2
     = markdown_cell ''plain''
   \<and> code_cell ''x'' \<in> set [markdown_cell ''# A'', code_cell ''x'']"
proof -
  let ?e = "example_env [(''nb'', [markdown_cell ''# A'', code_cell ''x''])]"
  let ?u = "\<lparr>unit_name = ''U'', cells = [equation_cell, code_cell ''x'', markdown_cell ''plain'']\<rparr>"
  let ?un = "\<lparr>unit_name = ''A'', cells = [markdown_node ''# A'', markdown_node [], code_cell ''x'']\<rparr>"
  note t = convert_unit_cells_frame[of ?e ?u None]
  have ok: "convert_unit ?e ?u None
      = Inr [Html ([backslash, CHR ''['', CHR ''x'', backslash, CHR '']''] @ ''xplain'')]"
    by code_simp
  have i: "2 < length (cells ?u)" by simp
  have nb: "backslash \<notin> set (source (cells ?u ! 2))" by (simp add: markdown_cell_def)
  have r: "nbformat_read ?e ''nb'' = Inr [markdown_cell ''# A'', code_cell ''x'']"
    by (simp add: example_env_def)
  have sp: "split_into_units ?e ''nb'' True = Inr [?un]" by code_simp
  have m: "?un \<in> set [?un]" and c: "code_cell ''x'' \<in> set (cells ?un)" by simp_all
  have nmd: "\<forall>src. code_cell ''x'' \<noteq> markdown_node src"
    by (simp add: code_cell_def markdown_node_def)
  from t ok have a: "fst (convert_unit_heap ?e ?u None) = map rewrite_cell (cells ?u)" by blast
  from t i nb have b: "fst (convert_unit_heap ?e ?u None) ! 2 = cells ?u ! 2" by blast
  from t r sp m c nmd have d: "code_cell ''x'' \<in> set [markdown_cell ''# A'', code_cell ''x'']" by blast
  from a b d show ?thesis by simp
qed

text \<open>
  C8 as stated fails: after \<open>convert_unit\<close> the markdown cell of the unit that holds an
  equation environment has the rewritten text as its source, not the text it had before.
\<close>

theorem convert_unit_rewrites_prose_source:
  "source (fst (convert_unit_heap (example_env []) \<lparr>unit_name = ''U'', cells = [equation_cell]\<rparr> None) ! 0)
     = [backslash, CHR ''['', CHR ''x'', backslash, CHR '']'']
   \<and> source (fst (convert_unit_heap (example_env []) \<lparr>unit_name = ''U'', cells = [equation_cell]\<rparr> None) ! 0)
     \<noteq> source (cells \<lparr>unit_name = ''U'', cells = [equation_cell]\<rparr> ! 0)"
  by code_simp

subsection \<open>Serializer\<close>

lemma match_math_no_dollar: "CHR ''$'' \<noteq> c \<Longrightarrow> match_math (CHR ''$'' # d) (c # cs) = None"
  by (simp add: match_math_def startswith_def)

lemma sub_display_plain: "CHR ''$'' \<notin> set t \<Longrightarrow> sub_display (t @ s) = t @ sub_display s"
  by (induction t) (simp_all add: match_math_no_dollar)

lemma sub_inline_plain: "CHR ''$'' \<notin> set t \<Longrightarrow> sub_inline (t @ s) = t @ sub_inline s"
  by (induction t) (simp_all add: match_math_no_dollar)

lemma find_close_body:
  "math_body x \<Longrightarrow> find_close (CHR ''$'' # d) (x @ (CHR ''$'' # d) @ r) = Some (x, r)"
proof (induction x)
  case Nil
  show ?case by (simp add: startswith_def)
next
  case (Cons c x)
  then have c: "CHR ''$'' \<noteq> c" "c \<noteq> newline" and b: "math_body x"
    by (auto simp: math_body_def)
  from c have "\<not> startswith ((c # x) @ (CHR ''$'' # d) @ r) (CHR ''$'' # d)"
    by (simp add: startswith_def)
  with c Cons.IH[OF b] show ?case by simp
qed

lemma match_math_body:
  "math_body x \<Longrightarrow> match_math (CHR ''$'' # d) ((CHR ''$'' # d) @ x @ (CHR ''$'' # d) @ r) = Some (x, r)"
  using find_close_body[of x d r] by (simp add: match_math_def startswith_def)

lemma sub_display_display:
  assumes "math_body x"
  shows "sub_display (''$$'' @ x @ ''$$'' @ r) = [backslash, CHR ''[''] @ x @ [backslash, CHR '']''] @ sub_display r"
proof -
  from match_math_body[OF assms, of "''$''" r]
  have "match_math ''$$'' (CHR ''$'' # CHR ''$'' # x @ ''$$'' @ r) = Some (x, r)" by simp
  then show ?thesis by simp
qed

lemma sub_inline_inline:
  assumes "math_body x"
  shows "sub_inline (''$'' @ x @ ''$'' @ r) = [backslash, CHR ''(''] @ x @ [backslash, CHR '')''] @ sub_inline r"
proof -
  from match_math_body[OF assms, of "[]" r]
  have "match_math ''$'' (CHR ''$'' # x @ ''$'' @ r) = Some (x, r)" by simp
  then show ?thesis by simp
qed

lemma match_display_single:
  "s = [] \<or> hd s \<noteq> CHR ''$'' \<Longrightarrow> match_math ''$$'' (CHR ''$'' # s) = None"
  by (cases s) (auto simp: match_math_def startswith_def)

lemma sub_display_inline:
  assumes "math_body x" and "x \<noteq> []" and "r = [] \<or> hd r \<noteq> CHR ''$''"
  shows "sub_display (''$'' @ x @ ''$'' @ r) = ''$'' @ x @ ''$'' @ sub_display r"
proof -
  from assms(1,2) have "x @ ''$'' @ r \<noteq> [] \<and> hd (x @ ''$'' @ r) \<noteq> CHR ''$''"
    by (cases x) (auto simp: math_body_def)
  then have m1: "match_math ''$$'' (CHR ''$'' # x @ ''$'' @ r) = None"
    by (intro match_display_single) simp
  from assms(3) have m2: "match_math ''$$'' (CHR ''$'' # r) = None"
    by (rule match_display_single)
  from assms(1) have nd: "CHR ''$'' \<notin> set x" by (simp add: math_body_def)
  have "sub_display (''$'' @ x @ ''$'' @ r) = CHR ''$'' # sub_display (x @ ''$'' @ r)"
    using m1 by simp
  also have "\<dots> = CHR ''$'' # x @ sub_display (''$'' @ r)"
    by (simp add: sub_display_plain[OF nd])
  also have "\<dots> = CHR ''$'' # x @ CHR ''$'' # sub_display r"
    using m2 by simp
  finally show ?thesis by simp
qed

lemma dollar_text_after_inline:
  "well_delimited (Inline x # r) \<Longrightarrow> dollar_text r = [] \<or> hd (dollar_text r) \<noteq> CHR ''$''"
proof (cases r)
  case Nil
  then show ?thesis by simp
next
  case (Cons s r')
  assume "well_delimited (Inline x # r)"
  with Cons obtain t where "s = Plain t" "t \<noteq> []" "CHR ''$'' \<notin> set t"
    by (cases s) auto
  with Cons show ?thesis by (cases t) auto
qed

lemma sub_display_dollar_text: "well_delimited segs \<Longrightarrow> sub_display (dollar_text segs) = half_text segs"
proof (induction segs)
  case Nil
  show ?case by simp
next
  case (Cons s segs)
  show ?case
  proof (cases s)
    case (Plain t)
    with Cons show ?thesis by (simp add: sub_display_plain)
  next
    case (Inline x)
    with Cons.prems have b: "math_body x" and ne: "x \<noteq> []" and w: "well_delimited segs" by simp_all
    from Cons.prems Inline have "well_delimited (Inline x # segs)" by simp
    then have "dollar_text segs = [] \<or> hd (dollar_text segs) \<noteq> CHR ''$''"
      by (rule dollar_text_after_inline)
    from sub_display_inline[OF b ne this] Cons.IH[OF w] Inline show ?thesis by simp
  next
    case (Display x)
    with Cons.prems have b: "math_body x" and w: "well_delimited segs" by simp_all
    from sub_display_display[OF b] Cons.IH[OF w] Display show ?thesis by simp
  qed
qed

lemma sub_inline_half_text: "well_delimited segs \<Longrightarrow> sub_inline (half_text segs) = bracket_text segs"
proof (induction segs)
  case Nil
  show ?case by simp
next
  case (Cons s segs)
  show ?case
  proof (cases s)
    case (Plain t)
    with Cons show ?thesis by (simp add: sub_inline_plain)
  next
    case (Inline x)
    with Cons.prems have b: "math_body x" and w: "well_delimited segs" by simp_all
    from sub_inline_inline[OF b] Cons.IH[OF w] Inline show ?thesis by simp
  next
    case (Display x)
    with Cons.prems have b: "math_body x" and w: "well_delimited segs" by simp_all
    then have "CHR ''$'' \<notin> set ([backslash, CHR ''[''] @ x @ [backslash, CHR '']''])"
      by (simp add: math_body_def)
    from sub_inline_plain[OF this] Cons.IH[OF w] Display show ?thesis by simp
  qed
qed

lemma bracket_text_no_dollar: "well_delimited segs \<Longrightarrow> CHR ''$'' \<notin> set (bracket_text segs)"
proof (induction segs)
  case Nil
  show ?case by simp
next
  case (Cons s segs)
  then show ?case by (cases s) (auto simp: math_body_def)
qed

lemma rewrite_no_dollar: "CHR ''$'' \<notin> set t \<Longrightarrow> sub_inline (sub_display t) = t"
  using sub_display_plain[of t "[]"] sub_inline_plain[of t "[]"] by simp

text \<open>
  C4 as the code has it. If the serialized text is well delimited, \<open>save_xml\<close> writes it
  with every display fragment between \<open>\[\<close> and \<open>\]\<close> and every inline fragment between
  \<open>\(\<close> and \<open>\)\<close>, and rewriting the result again changes nothing. A text without
  dollars is the case of one plain part.
\<close>

theorem save_xml_math_delimiters:
  assumes "well_delimited segs" and "prettify e x = dollar_text segs"
  shows "save_xml e x = bracket_text segs
       \<and> sub_inline (sub_display (save_xml e x)) = save_xml e x"
proof -
  from assms have "save_xml e x = bracket_text segs"
    by (simp add: save_xml_def sub_display_dollar_text sub_inline_half_text)
  with rewrite_no_dollar[OF bracket_text_no_dollar[OF assms(1)]] show ?thesis by simp
qed


theorem save_xml_math_delimiters_witness:
  "save_xml (example_env []) (Element (''a $x$ b $$y$$'') [] [])
     = ''a '' @ [backslash, CHR ''('', CHR ''x'', backslash, CHR '')''] @ '' b ''
        @ [backslash, CHR ''['', CHR ''y'', backslash, CHR '']'']"
proof -
  let ?segs = "[Plain ''a '', Inline ''x'', Plain '' b '', Display ''y'']"
  have h1: "well_delimited ?segs" by (simp add: math_body_def)
  have h2: "prettify (example_env []) (Element (''a $x$ b $$y$$'') [] []) = dollar_text ?segs"
    by code_simp
  from save_xml_math_delimiters[OF h1 h2] show ?thesis by simp
qed

text \<open>
  C4 as stated fails when the text between the delimiters holds a newline, which \<open>.\<close>
  does not match: the inline fragment stays as it was, and of the display fragment only
  the two pairs of dollars are rewritten, each as an empty inline fragment.
\<close>

theorem save_xml_newline_in_math:
  "save_xml (example_env []) (Element (''$a'' @ [newline] @ ''b$'') [] []) = ''$a'' @ [newline] @ ''b$''
   \<and> save_xml (example_env []) (Element (''$$a'' @ [newline] @ ''b$$'') [] [])
       = [backslash, CHR ''('', backslash, CHR '')''] @ ''a'' @ [newline] @ ''b''
         @ [backslash, CHR ''('', backslash, CHR '')'']"
  by code_simp

subsection \<open>Identifiers\<close>













































end
